theory Spec2Isabelle
  imports Main "HOL-Library.Word"
begin

unbundle bit_operations_syntax

section \<open>The touch-screen digit capture program (esp32/main_final.py, esp32/mainESPold.py)\<close>

text \<open>
  The class \<open>TouchScreen\<close> exists in two files: \<open>main_final.py\<close> (fixed 28x28 drawing
  window, plus-shaped brush, padded serial frame) and \<open>mainESPold.py\<close> (whole canvas,
  single-pixel brush, bounding box with scaling, unpadded serial frame). Functions of
  \<open>main_final.py\<close> keep their names; functions of \<open>mainESPold.py\<close> whose text differs
  carry the suffix \<open>_old\<close>. Python integers are \<open>int\<close>, a \<open>bytearray\<close> is a list of
  8-bit words, an exception is a value \<open>Inl e\<close>, and the only unbounded loop
  (\<open>while True\<close> in \<open>draw_line\<close>) is a partial function into \<open>option\<close>, where
  \<open>None\<close> stands for a loop that never returns. Console output of \<open>print\<close> and the
  file \<open>tmp.txt\<close> written by \<open>mainESPold.py\<close> are not part of the state.
\<close>

subsection \<open>Byte arrays\<close>

type_synonym byte = "8 word"
type_synonym bytes = "byte list"

datatype error = IndexError | TypeError

text \<open>\<open>bytearray(n)\<close>: n zero bytes.\<close>

definition bytearray :: "nat \<Rightarrow> bytes" where
  "bytearray n = replicate n 0"

text \<open>\<open>b[i]\<close> and \<open>b[i] = v\<close>: a negative index counts from the end, an index out of
  range raises \<open>IndexError\<close>.\<close>

definition getitem :: "bytes \<Rightarrow> int \<Rightarrow> error + byte" where
  "getitem b i =
     (let j = (if i < 0 then int (length b) + i else i)
      in if 0 \<le> j \<and> j < int (length b) then Inr (b ! nat j) else Inl IndexError)"

definition setitem :: "bytes \<Rightarrow> int \<Rightarrow> byte \<Rightarrow> error + bytes" where
  "setitem b i v =
     (let j = (if i < 0 then int (length b) + i else i)
      in if 0 \<le> j \<and> j < int (length b) then Inr (b[nat j := v]) else Inl IndexError)"

text \<open>\<open>b[i] |= v\<close>: read, or, write back. Both operands are below 256, so is the result.\<close>

definition ior_item :: "bytes \<Rightarrow> int \<Rightarrow> byte \<Rightarrow> error + bytes" where
  "ior_item b i v = (case getitem b i of Inl e \<Rightarrow> Inl e | Inr old \<Rightarrow> setitem b i (old OR v))"

subsection \<open>FrameBuffer accessors\<close>

text \<open>
  \<^verbatim>\<open>
  def set_pixel(self, x, y, state=True):
      if 0 <= x < 320 and 0 <= y < 240:
          idx = y * 320 + x
          self.buffer[idx // 8] |= (state << (7 - (idx % 8)))

  def get_pixel(self, x, y):
      if 0 <= x < 320 and 0 <= y < 240:
          idx = y * 320 + x
          return bool(self.buffer[idx // 8] & (1 << (7 - (idx % 8))))
      return False
  \<close>
  The same text in both files.
\<close>

definition set_pixel :: "bytes \<Rightarrow> int \<Rightarrow> int \<Rightarrow> bool \<Rightarrow> error + bytes" where
  "set_pixel buf x y state =
     (if 0 \<le> x \<and> x < 320 \<and> 0 \<le> y \<and> y < 240 then
        (let idx = y * 320 + x
         in ior_item buf (idx div 8) (push_bit (nat (7 - idx mod 8)) (of_bool state)))
      else Inr buf)"

definition get_pixel :: "bytes \<Rightarrow> int \<Rightarrow> int \<Rightarrow> error + bool" where
  "get_pixel buf x y =
     (if 0 \<le> x \<and> x < 320 \<and> 0 \<le> y \<and> y < 240 then
        (let idx = y * 320 + x
         in case getitem buf (idx div 8) of
              Inl e \<Rightarrow> Inl e
            | Inr b \<Rightarrow> Inr (b AND push_bit (nat (7 - idx mod 8)) 1 \<noteq> 0))
      else Inr False)"

subsection \<open>Device state\<close>

datatype colour = WHITE | BLACK

datatype screen_op =
    Clear colour
  | Fill_rectangle int int int int colour
  | Draw_rectangle int int int int colour
  | Draw_text8x8 int int string colour colour
  | Fill_circle int int int colour

text \<open>\<open>TouchArea(x, y, w, h)\<close> keeps \<open>range(x, x + w)\<close> and \<open>range(y, y + h)\<close>; a range
  is its start and stop.\<close>

record touch_area =
  x_range :: "int \<times> int"
  y_range :: "int \<times> int"

definition TouchArea :: "int \<Rightarrow> int \<Rightarrow> int \<Rightarrow> int \<Rightarrow> touch_area" where
  "TouchArea x y w h = \<lparr>x_range = (x, x + w), y_range = (y, y + h)\<rparr>"

definition in_range :: "int \<Rightarrow> int \<times> int \<Rightarrow> bool" where
  "in_range v r = (fst r \<le> v \<and> v < snd r)"

datatype callback = Save_mnist

text \<open>The fields of \<open>TouchScreen\<close> set in \<open>__init__\<close>, the commands sent to the display
  (\<open>Screen\<close>) and the frames written to the serial peripheral (\<open>uart.write\<close>), oldest
  first.\<close>

record touchscreen =
  buffer :: bytes
  last_x :: "int option"
  last_y :: "int option"
  freeze :: bool
  Touch_items :: "touch_area list"
  Touch_callbacks :: "callback list"
  Screen :: "screen_op list"
  uart :: "bytes list"

definition draw_size :: int where "draw_size = 1"
definition draw_area :: int where "draw_area = 28"
definition d_x :: int where "d_x = 140"
definition d_y :: int where "d_y = 100"

subsection \<open>Serial transmission\<close>

text \<open>
  \<open>main_final.py\<close>:
  \<^verbatim>\<open>
  data_bytes = bytearray(b'\x00')
  data_bytes += bytearray(mnist_data)
  uart.write(data_bytes)
  \<close>
  \<open>mainESPold.py\<close>:
  \<^verbatim>\<open>
  data_bytes = mnist_data
  uart.write(data_bytes)
  \<close>
\<close>

definition send_uart_data :: "touchscreen \<Rightarrow> bytes \<Rightarrow> touchscreen" where
  "send_uart_data s mnist_data =
     (let data_bytes = [0] @ mnist_data
      in s\<lparr>uart := uart s @ [data_bytes]\<rparr>)"

definition send_uart_data_old :: "touchscreen \<Rightarrow> bytes \<Rightarrow> touchscreen" where
  "send_uart_data_old s mnist_data =
     (let data_bytes = mnist_data
      in s\<lparr>uart := uart s @ [data_bytes]\<rparr>)"

subsection \<open>Drawing\<close>

definition and_then :: "error + 'a \<Rightarrow> ('a \<Rightarrow> error + 'b) \<Rightarrow> error + 'b" where
  "and_then r f = (case r of Inl e \<Rightarrow> Inl e | Inr v \<Rightarrow> f v)"

text \<open>
  \<open>main_final.py\<close>:
  \<^verbatim>\<open>
  def draw_point(self, x, y):
      if 0 <= x < 320 and 0 <= y < 240:
          self.Screen.fill_circle(x, y, self.draw_size, self.BLACK)
          self.set_pixel(x, y, True)
          self.set_pixel(x+1, y, True)
          self.set_pixel(x-1, y, True)
          self.set_pixel(x, y+1, True)
          self.set_pixel(x, y-1, True)
  \<close>
  \<open>mainESPold.py\<close>:
  \<^verbatim>\<open>
  def draw_point(self, x, y):
      if 0 <= x < 320 and 0 <= y < 240:
          self.Screen.fill_circle(x, y, 3, self.BLACK)
          self.set_pixel(x, y, True)
  \<close>
\<close>

definition draw_point :: "touchscreen \<Rightarrow> int \<Rightarrow> int \<Rightarrow> error + touchscreen" where
  "draw_point s x y =
     (if 0 \<le> x \<and> x < 320 \<and> 0 \<le> y \<and> y < 240 then
        and_then (set_pixel (buffer s) x y True) (\<lambda>b1.
        and_then (set_pixel b1 (x + 1) y True) (\<lambda>b2.
        and_then (set_pixel b2 (x - 1) y True) (\<lambda>b3.
        and_then (set_pixel b3 x (y + 1) True) (\<lambda>b4.
        and_then (set_pixel b4 x (y - 1) True) (\<lambda>b5.
        Inr (s\<lparr>buffer := b5, Screen := Screen s @ [Fill_circle x y draw_size BLACK]\<rparr>))))))
      else Inr s)"

definition draw_point_old :: "touchscreen \<Rightarrow> int \<Rightarrow> int \<Rightarrow> error + touchscreen" where
  "draw_point_old s x y =
     (if 0 \<le> x \<and> x < 320 \<and> 0 \<le> y \<and> y < 240 then
        and_then (set_pixel (buffer s) x y True) (\<lambda>b1.
        Inr (s\<lparr>buffer := b1, Screen := Screen s @ [Fill_circle x y 3 BLACK]\<rparr>))
      else Inr s)"

text \<open>
  The same text in both files; only the \<open>draw_point\<close> it calls differs, so that method
  is the parameter \<open>dp\<close>:
  \<^verbatim>\<open>
  def draw_line(self, x, y):
      dx = abs(x - self.last_x)
      dy = abs(y - self.last_y)
      sx = 1 if x > self.last_x else -1
      sy = 1 if y > self.last_y else -1
      err = dx - dy
      while True:
          self.draw_point(self.last_x, self.last_y)
          if self.last_x == x and self.last_y == y:
              break
          e2 = 2 * err
          if e2 > -dy:
              err -= dy
              self.last_x += sx
          if e2 < dx:
              err += dx
              self.last_y += sy
  \<close>
  One call of \<open>draw_line_loop\<close> is one iteration. \<open>draw_point\<close> assigns neither
  \<open>last_x\<close> nor \<open>last_y\<close>, so the iteration reads them once, at its start. Both are
  integers whenever the loop runs: \<open>draw_line\<close> has just subtracted them from \<open>x\<close> and
  \<open>y\<close>, which raises \<open>TypeError\<close> on \<open>None\<close>, and the loop only adds to them. The
  \<open>None\<close> branches of the loop stand for the \<open>TypeError\<close> of comparing \<open>None\<close> with a
  number in \<open>draw_point\<close>.
\<close>

partial_function (option) draw_line_loop ::
  "(touchscreen \<Rightarrow> int \<Rightarrow> int \<Rightarrow> error + touchscreen) \<Rightarrow> int \<Rightarrow> int \<Rightarrow> int \<Rightarrow> int \<Rightarrow> int \<Rightarrow> int
     \<Rightarrow> int \<Rightarrow> touchscreen \<Rightarrow> (error + touchscreen) option" where
  "draw_line_loop dp x y dx dy sx sy err s =
     (case last_x s of
        None \<Rightarrow> Some (Inl TypeError)
      | Some lx \<Rightarrow>
         (case last_y s of
            None \<Rightarrow> Some (Inl TypeError)
          | Some ly \<Rightarrow>
             (case dp s lx ly of
                Inl e \<Rightarrow> Some (Inl e)
              | Inr s1 \<Rightarrow>
                 if lx = x \<and> ly = y then Some (Inr s1)
                 else
                   let e2 = 2 * err;
                       err1 = (if e2 > - dy then err - dy else err);
                       lx1 = (if e2 > - dy then lx + sx else lx);
                       err2 = (if e2 < dx then err1 + dx else err1);
                       ly1 = (if e2 < dx then ly + sy else ly)
                   in draw_line_loop dp x y dx dy sx sy err2
                        (s1\<lparr>last_x := Some lx1, last_y := Some ly1\<rparr>))))"

definition draw_line_with ::
  "(touchscreen \<Rightarrow> int \<Rightarrow> int \<Rightarrow> error + touchscreen) \<Rightarrow> touchscreen \<Rightarrow> int \<Rightarrow> int
     \<Rightarrow> (error + touchscreen) option" where
  "draw_line_with dp s x y =
     (case last_x s of
        None \<Rightarrow> Some (Inl TypeError)
      | Some lx \<Rightarrow>
         (case last_y s of
            None \<Rightarrow> Some (Inl TypeError)
          | Some ly \<Rightarrow>
             let dx = \<bar>x - lx\<bar>;
                 dy = \<bar>y - ly\<bar>;
                 sx = (if x > lx then 1 else - 1);
                 sy = (if y > ly then 1 else - 1);
                 err = dx - dy
             in draw_line_loop dp x y dx dy sx sy err s))"



text \<open>
  The same text in both files:
  \<^verbatim>\<open>
  def process_drawing(self, x, y):
      if self.last_x is None:
          self.draw_point(x, y)
      else:
          self.draw_line(x, y)
      self.last_x, self.last_y = x, y
  \<close>
\<close>

definition process_drawing_with ::
  "(touchscreen \<Rightarrow> int \<Rightarrow> int \<Rightarrow> error + touchscreen) \<Rightarrow> touchscreen \<Rightarrow> int \<Rightarrow> int
     \<Rightarrow> (error + touchscreen) option" where
  "process_drawing_with dp s x y =
     (case (if last_x s = None then Some (dp s x y) else draw_line_with dp s x y) of
        None \<Rightarrow> None
      | Some (Inl e) \<Rightarrow> Some (Inl e)
      | Some (Inr s1) \<Rightarrow> Some (Inr (s1\<lparr>last_x := Some x, last_y := Some y\<rparr>)))"

definition process_drawing :: "touchscreen \<Rightarrow> int \<Rightarrow> int \<Rightarrow> (error + touchscreen) option" where
  "process_drawing = process_drawing_with draw_point"

definition process_drawing_old :: "touchscreen \<Rightarrow> int \<Rightarrow> int \<Rightarrow> (error + touchscreen) option" where
  "process_drawing_old = process_drawing_with draw_point_old"

subsection \<open>Region extraction\<close>

text \<open>\<open>for v in range(a, b)\<close> with a body that may raise: the values in order, the
  state threaded through, the first exception ending the loop.\<close>

definition py_range :: "int \<Rightarrow> int \<Rightarrow> int list" where
  "py_range a b = map (\<lambda>i. a + int i) [0..<nat (b - a)]"

fun for_each :: "'a list \<Rightarrow> ('a \<Rightarrow> 's \<Rightarrow> error + 's) \<Rightarrow> 's \<Rightarrow> error + 's" where
  "for_each [] body st = Inr st"
| "for_each (v # vs) body st =
     (case body v st of Inl e \<Rightarrow> Inl e | Inr st' \<Rightarrow> for_each vs body st')"

text \<open>
  The bounding-box scan, the same text in both files:
  \<^verbatim>\<open>
  min_x = max_x = min_y = max_y = None
  for y in range(240):
      for x in range(320):
          if self.get_pixel(x, y):
              min_x = min(x, min_x) if min_x else x
              max_x = max(x, max_x) if max_x else x
              min_y = min(y, min_y) if min_y else y
              max_y = max(y, max_y) if max_y else y
  \<close>
  \<open>a if v else b\<close> tests the truth value of \<open>v\<close>: \<open>None\<close> and \<open>0\<close> are both false.
\<close>

record bounds =
  min_x :: "int option"
  max_x :: "int option"
  min_y :: "int option"
  max_y :: "int option"

definition truthy :: "int option \<Rightarrow> bool" where
  "truthy v = (case v of None \<Rightarrow> False | Some n \<Rightarrow> n \<noteq> 0)"

definition min_if :: "int \<Rightarrow> int option \<Rightarrow> int" where
  "min_if x v = (case v of None \<Rightarrow> x | Some m \<Rightarrow> if m \<noteq> 0 then min x m else x)"

definition max_if :: "int \<Rightarrow> int option \<Rightarrow> int" where
  "max_if x v = (case v of None \<Rightarrow> x | Some m \<Rightarrow> if m \<noteq> 0 then max x m else x)"

definition update_bounds :: "int \<Rightarrow> int \<Rightarrow> bounds \<Rightarrow> bounds" where
  "update_bounds x y b =
     \<lparr>min_x = Some (min_if x (min_x b)), max_x = Some (max_if x (max_x b)),
      min_y = Some (min_if y (min_y b)), max_y = Some (max_if y (max_y b))\<rparr>"

definition no_bounds :: bounds where
  "no_bounds = \<lparr>min_x = None, max_x = None, min_y = None, max_y = None\<rparr>"

definition find_bounds :: "bytes \<Rightarrow> error + bounds" where
  "find_bounds buf =
     for_each (py_range 0 240) (\<lambda>y.
       for_each (py_range 0 320) (\<lambda>x b.
         case get_pixel buf x y of
           Inl e \<Rightarrow> Inl e
         | Inr p \<Rightarrow> Inr (if p then update_bounds x y b else b)))
       no_bounds"

text \<open>\<open>a - b\<close> on values that may be \<open>None\<close>.\<close>

definition sub :: "int option \<Rightarrow> int option \<Rightarrow> error + int" where
  "sub a b = (case a of None \<Rightarrow> Inl TypeError
              | Some p \<Rightarrow> (case b of None \<Rightarrow> Inl TypeError | Some q \<Rightarrow> Inr (p - q)))"

text \<open>
  \<open>main_final.py\<close>:
  \<^verbatim>\<open>
  def extract_mnist_region(self):
      mnist_bits = bytearray(98)
      bit_index = 0
      for y in range(self.d_y, self.d_y + self.draw_area):
          for x in range(self.d_x, self.d_x + self.draw_area):
              if self.get_pixel(x, y):
                  byte_index = bit_index // 8
                  bit_offset = 7 - (bit_index % 8)
                  mnist_bits[byte_index] |= (1 << bit_offset)
              bit_index += 1
      return mnist_bits
  \<close>
\<close>

definition pack_bit :: "bool \<Rightarrow> bytes \<times> int \<Rightarrow> error + bytes \<times> int" where
  "pack_bit pixel st =
     (case st of (bits, bit_index) \<Rightarrow>
        and_then
          (if pixel then
             (let byte_index = bit_index div 8;
                  bit_offset = 7 - bit_index mod 8
              in ior_item bits byte_index (push_bit (nat bit_offset) 1))
           else Inr bits)
          (\<lambda>bits'. Inr (bits', bit_index + 1)))"

definition extract_mnist_region :: "bytes \<Rightarrow> error + bytes" where
  "extract_mnist_region buf =
     and_then
       (for_each (py_range d_y (d_y + draw_area)) (\<lambda>y.
          for_each (py_range d_x (d_x + draw_area)) (\<lambda>x st.
            and_then (get_pixel buf x y) (\<lambda>p. pack_bit p st)))
          (bytearray 98, 0))
       (\<lambda>st. Inr (fst st))"

text \<open>
  \<open>mainESPold.py\<close>:
  \<^verbatim>\<open>
  def scale_and_convert_to_bytearray(self, x_start, y_start, src_width, src_height):
      dst_width = dst_height = 28
      scale_x = src_width / dst_width
      scale_y = src_height / dst_height
      result = bytearray(total_bytes)
      bit_index = 0
      for y in range(dst_height):
          for x in range(dst_width):
              src_x = int(x_start + x * scale_x)
              src_y = int(y_start + y * scale_y)
              if 0 <= src_x < 320 and 0 <= src_y < 240:
                  pixel = self.get_pixel(src_x, src_y)
              else:
                  pixel = 0
              byte_index = bit_index // 8
              bit_offset = 7 - (bit_index % 8)
              if pixel:
                  result[byte_index] |= (1 << bit_offset)
              bit_index += 1
      return result
  \<close>
  The source coordinate is computed in floating point. It is the parameter
  \<open>fl\<close>: \<open>fl start k size\<close> stands for \<open>int(start + k * (size / 28))\<close>.
\<close>

definition scale_and_convert_to_bytearray ::
  "(int \<Rightarrow> int \<Rightarrow> int \<Rightarrow> int) \<Rightarrow> bytes \<Rightarrow> int \<Rightarrow> int \<Rightarrow> int \<Rightarrow> int \<Rightarrow> error + bytes" where
  "scale_and_convert_to_bytearray fl buf x_start y_start src_width src_height =
     and_then
       (for_each (py_range 0 28) (\<lambda>y.
          for_each (py_range 0 28) (\<lambda>x st.
            let src_x = fl x_start x src_width;
                src_y = fl y_start y src_height
            in and_then
                 (if 0 \<le> src_x \<and> src_x < 320 \<and> 0 \<le> src_y \<and> src_y < 240
                  then get_pixel buf src_x src_y else Inr False)
                 (\<lambda>pixel. pack_bit pixel st)))
          (bytearray 98, 0))
       (\<lambda>st. Inr (fst st))"

text \<open>
  \<open>main_final.py\<close>, after the scan:
  \<^verbatim>\<open>
  if min_x is None:
      print("[ERROR] No drawing found!")
      return
  width = max_x - min_x
  height = max_y - min_y
  mnist_data = mnist_data = self.extract_mnist_region()
  self.send_uart_data(mnist_data)
  \<close>
  \<open>mainESPold.py\<close>, after the scan:
  \<^verbatim>\<open>
  if not min_x:
      print("[ERROR] No drawing found!")
      return
  width = max_x - min_x
  height = max_y - min_y
  image_sc = self.scale_and_convert_to_bytearray(min_x - 5, min_y - 5, width + 10, height + 10)
  self.send_uart_data(image_sc)
  \<close>
  The method returns nothing; the model returns which of the two exits was taken.
\<close>

datatype outcome = NoDrawingFound | Transmitted

definition process_mnist_data :: "touchscreen \<Rightarrow> error + outcome \<times> touchscreen" where
  "process_mnist_data s =
     and_then (find_bounds (buffer s)) (\<lambda>b.
       if min_x b = None then Inr (NoDrawingFound, s)
       else
         and_then (sub (max_x b) (min_x b)) (\<lambda>width.
         and_then (sub (max_y b) (min_y b)) (\<lambda>height.
         and_then (extract_mnist_region (buffer s)) (\<lambda>mnist_data.
         Inr (Transmitted, send_uart_data s mnist_data)))))"

definition process_mnist_data_old ::
  "(int \<Rightarrow> int \<Rightarrow> int \<Rightarrow> int) \<Rightarrow> touchscreen \<Rightarrow> error + outcome \<times> touchscreen" where
  "process_mnist_data_old fl s =
     and_then (find_bounds (buffer s)) (\<lambda>b.
       if \<not> truthy (min_x b) then Inr (NoDrawingFound, s)
       else
         and_then (sub (max_x b) (min_x b)) (\<lambda>width.
         and_then (sub (max_y b) (min_y b)) (\<lambda>height.
         and_then (sub (min_x b) (Some 5)) (\<lambda>x_start.
         and_then (sub (min_y b) (Some 5)) (\<lambda>y_start.
         and_then (scale_and_convert_to_bytearray fl (buffer s) x_start y_start
                     (width + 10) (height + 10)) (\<lambda>image_sc.
         Inr (Transmitted, send_uart_data_old s image_sc)))))))"

subsection \<open>User interface, canvas reset and the save action\<close>

text \<open>
  \<^verbatim>\<open>
  def addTouchItem(self, area, callback):
      self.Touch_items.append(area)
      self.Touch_callbacks.append(callback)
  \<close>
\<close>

definition addTouchItem :: "touchscreen \<Rightarrow> touch_area \<Rightarrow> callback \<Rightarrow> touchscreen" where
  "addTouchItem s area cb =
     s\<lparr>Touch_items := Touch_items s @ [area], Touch_callbacks := Touch_callbacks s @ [cb]\<rparr>"

definition screen_do :: "touchscreen \<Rightarrow> screen_op list \<Rightarrow> touchscreen" where
  "screen_do s ops = s\<lparr>Screen := Screen s @ ops\<rparr>"

text \<open>
  \<open>initialize_ui\<close> of \<open>main_final.py\<close>: a 64x64 button at (248, 176) labelled SEND, the
  frame of the 28x28 drawing window at (140, 100), two lines of text. Of
  \<open>mainESPold.py\<close>: a 32x32 button at (280, 208) labelled SAVE, two lines of text.
\<close>

definition initialize_ui :: "touchscreen \<Rightarrow> touchscreen" where
  "initialize_ui s =
     (let btn_size = 64; btn_x = 248; btn_y = 176;
          s1 = screen_do s
                 [Fill_rectangle btn_x btn_y btn_size btn_size WHITE,
                  Draw_rectangle btn_x btn_y btn_size btn_size BLACK,
                  Draw_text8x8 (btn_x + 16) (btn_y + 30) ''SEND'' BLACK WHITE];
          s2 = addTouchItem s1 (TouchArea btn_x btn_y btn_size btn_size) Save_mnist;
          draw_area = 28; d_x = 140; d_y = 100
      in screen_do s2
           [Fill_rectangle d_x d_y draw_area draw_area WHITE,
            Draw_rectangle d_x d_y draw_area draw_area BLACK,
            Draw_text8x8 10 10 ''Draw Digit'' BLACK WHITE,
            Draw_text8x8 10 30 ''Press SEND when done'' BLACK WHITE])"

definition initialize_ui_old :: "touchscreen \<Rightarrow> touchscreen" where
  "initialize_ui_old s =
     (let btn_size = 32; btn_x = 280; btn_y = 208;
          s1 = screen_do s
                 [Fill_rectangle btn_x btn_y btn_size btn_size WHITE,
                  Draw_rectangle btn_x btn_y btn_size btn_size BLACK,
                  Draw_text8x8 (btn_x + 8) (btn_y + 12) ''SAVE'' BLACK WHITE];
          s2 = addTouchItem s1 (TouchArea btn_x btn_y btn_size btn_size) Save_mnist
      in screen_do s2
           [Draw_text8x8 10 10 ''Draw Digit'' BLACK WHITE,
            Draw_text8x8 10 30 ''Press SAVE when done'' BLACK WHITE])"

text \<open>
  \<^verbatim>\<open>
  def reset_canvas(self):
      self.Screen.clear(self.WHITE)
      self.buffer = bytearray(9600)
      self.last_x = self.last_y = None
      self.initialize_ui()
  \<close>
\<close>

definition reset_canvas :: "touchscreen \<Rightarrow> touchscreen" where
  "reset_canvas s =
     initialize_ui
       ((screen_do s [Clear WHITE])\<lparr>buffer := bytearray 9600, last_x := None, last_y := None\<rparr>)"

definition reset_canvas_old :: "touchscreen \<Rightarrow> touchscreen" where
  "reset_canvas_old s =
     initialize_ui_old
       ((screen_do s [Clear WHITE])\<lparr>buffer := bytearray 9600, last_x := None, last_y := None\<rparr>)"

text \<open>
  \<^verbatim>\<open>
  def save_mnist(self):
      self.freeze = True
      self.process_mnist_data()
      self.reset_canvas()
      self.freeze = False
  \<close>
\<close>

definition save_mnist :: "touchscreen \<Rightarrow> error + touchscreen" where
  "save_mnist s =
     and_then (process_mnist_data (s\<lparr>freeze := True\<rparr>)) (\<lambda>r.
       Inr ((reset_canvas (snd r))\<lparr>freeze := False\<rparr>))"

definition save_mnist_old :: "(int \<Rightarrow> int \<Rightarrow> int \<Rightarrow> int) \<Rightarrow> touchscreen \<Rightarrow> error + touchscreen" where
  "save_mnist_old fl s =
     and_then (process_mnist_data_old fl (s\<lparr>freeze := True\<rparr>)) (\<lambda>r.
       Inr ((reset_canvas_old (snd r))\<lparr>freeze := False\<rparr>))"

subsection \<open>Touch events\<close>

text \<open>
  \<open>main_final.py\<close>:
  \<^verbatim>\<open>
  def touch_handler(self, x, y):
      if self.freeze:
          return
      x, y = y, x
      for i, area in enumerate(self.Touch_items):
          if x in area.x_range and y in area.y_range:
              self.Touch_callbacks[i]()
              return
      if not self.freeze:
          if self.d_x < x and x < self.d_x + self.draw_area and self.d_y < y and y < self.d_y + self.draw_area:
              self.process_drawing(x, y)
  \<close>
  In \<open>mainESPold.py\<close> the last \<open>if\<close> is absent: \<open>process_drawing\<close> is called whenever
  \<open>not self.freeze\<close>.
\<close>

text \<open>The index of the first area that contains the point, counting from \<open>i\<close>.\<close>

fun first_hit :: "touch_area list \<Rightarrow> nat \<Rightarrow> int \<Rightarrow> int \<Rightarrow> nat option" where
  "first_hit [] i x y = None"
| "first_hit (area # areas) i x y =
     (if in_range x (x_range area) \<and> in_range y (y_range area) then Some i
      else first_hit areas (Suc i) x y)"

definition call :: "callback list \<Rightarrow> nat \<Rightarrow> touchscreen \<Rightarrow> error + touchscreen" where
  "call cbs i s =
     (if i < length cbs then (case cbs ! i of Save_mnist \<Rightarrow> save_mnist s) else Inl IndexError)"

definition call_old ::
  "(int \<Rightarrow> int \<Rightarrow> int \<Rightarrow> int) \<Rightarrow> callback list \<Rightarrow> nat \<Rightarrow> touchscreen \<Rightarrow> error + touchscreen" where
  "call_old fl cbs i s =
     (if i < length cbs then (case cbs ! i of Save_mnist \<Rightarrow> save_mnist_old fl s)
      else Inl IndexError)"

definition touch_handler :: "touchscreen \<Rightarrow> int \<Rightarrow> int \<Rightarrow> (error + touchscreen) option" where
  "touch_handler s x_raw y_raw =
     (if freeze s then Some (Inr s)
      else
        let x = y_raw; y = x_raw
        in case first_hit (Touch_items s) 0 x y of
             Some i \<Rightarrow> Some (call (Touch_callbacks s) i s)
           | None \<Rightarrow>
               if \<not> freeze s then
                 (if d_x < x \<and> x < d_x + draw_area \<and> d_y < y \<and> y < d_y + draw_area
                  then process_drawing s x y
                  else Some (Inr s))
               else Some (Inr s))"

definition touch_handler_old ::
  "(int \<Rightarrow> int \<Rightarrow> int \<Rightarrow> int) \<Rightarrow> touchscreen \<Rightarrow> int \<Rightarrow> int \<Rightarrow> (error + touchscreen) option" where
  "touch_handler_old fl s x_raw y_raw =
     (if freeze s then Some (Inr s)
      else
        let x = y_raw; y = x_raw
        in case first_hit (Touch_items s) 0 x y of
             Some i \<Rightarrow> Some (call_old fl (Touch_callbacks s) i s)
           | None \<Rightarrow>
               if \<not> freeze s then process_drawing_old s x y
               else Some (Inr s))"

text \<open>
  \<open>__init__\<close> clears the display, creates the fields and builds the user interface.
\<close>

definition TouchScreen_init :: touchscreen where
  "TouchScreen_init =
     initialize_ui
       \<lparr>buffer = bytearray 9600, last_x = None, last_y = None, freeze = False,
        Touch_items = [], Touch_callbacks = [], Screen = [Clear WHITE], uart = []\<rparr>"

definition TouchScreen_init_old :: touchscreen where
  "TouchScreen_init_old =
     initialize_ui_old
       \<lparr>buffer = bytearray 9600, last_x = None, last_y = None, freeze = False,
        Touch_items = [], Touch_callbacks = [], Screen = [Clear WHITE], uart = []\<rparr>"

subsection \<open>Vocabulary of the properties\<close>

text \<open>A pixel is ink when it lies on the canvas and its bit is set: bit \<open>7 - idx mod 8\<close>
  of byte \<open>idx div 8\<close>, with \<open>idx = y * 320 + x\<close>.\<close>

definition ink :: "bytes \<Rightarrow> int \<Rightarrow> int \<Rightarrow> bool" where
  "ink buf x y = (0 \<le> x \<and> x < 320 \<and> 0 \<le> y \<and> y < 240 \<and>
     bit (buf ! nat ((y * 320 + x) div 8)) (nat (7 - (y * 320 + x) mod 8)))"

text \<open>A sequence of \<open>set_pixel\<close> calls, each with its coordinates and its state.\<close>

fun set_pixels :: "bytes \<Rightarrow> (int \<times> int \<times> bool) list \<Rightarrow> error + bytes" where
  "set_pixels buf [] = Inr buf"
| "set_pixels buf ((x, y, state) # calls) =
     (case set_pixel buf x y state of Inl e \<Rightarrow> Inl e | Inr buf' \<Rightarrow> set_pixels buf' calls)"

text \<open>The pixels of the canvas in the order of the scan, row by row, and what the
  scan does at one of them.\<close>

definition canvas_points :: "(int \<times> int) list" where
  "canvas_points = concat (map (\<lambda>y. map (\<lambda>x. (x, y)) (py_range 0 320)) (py_range 0 240))"

definition scan_step :: "bytes \<Rightarrow> int \<times> int \<Rightarrow> bounds \<Rightarrow> bounds" where
  "scan_step buf p b = (if ink buf (fst p) (snd p) then update_bounds (fst p) (snd p) b else b)"

text \<open>\<open>mainESPold.py\<close> after \<open>__init__\<close> and one touch at the transposed point
  \<open>(0, 0)\<close>.\<close>

definition one_dot_old :: touchscreen where
  "one_dot_old =
     TouchScreen_init_old
       \<lparr>buffer := (bytearray 9600)[0 := 128], last_x := Some 0, last_y := Some 0,
        Screen := Screen TouchScreen_init_old @ [Fill_circle 0 0 3 BLACK]\<rparr>"

text \<open>A list of lattice points is 8-connected when consecutive points differ by at
  most 1 in each coordinate; \<open>plot_all dp s pts\<close> calls the point-drawing method
  \<open>dp\<close> at each point in order.\<close>

fun connected8 :: "(int \<times> int) list \<Rightarrow> bool" where
  "connected8 (p # q # ps) =
     (\<bar>fst q - fst p\<bar> \<le> 1 \<and> \<bar>snd q - snd p\<bar> \<le> 1 \<and> connected8 (q # ps))"
| "connected8 ps = True"

fun plot_all ::
  "(touchscreen \<Rightarrow> int \<Rightarrow> int \<Rightarrow> error + touchscreen) \<Rightarrow> touchscreen \<Rightarrow> (int \<times> int) list
     \<Rightarrow> error + touchscreen" where
  "plot_all dp s [] = Inr s"
| "plot_all dp s (p # ps) =
     (case dp s (fst p) (snd p) of Inl e \<Rightarrow> Inl e | Inr s' \<Rightarrow> plot_all dp s' ps)"

text \<open>And after a second touch, at the transposed point \<open>(1, 0)\<close>.\<close>

definition two_dots_old :: touchscreen where
  "two_dots_old =
     one_dot_old
       \<lparr>buffer := (bytearray 9600)[0 := 192], last_x := Some 1, last_y := Some 0,
        Screen := Screen one_dot_old @ [Fill_circle 0 0 3 BLACK, Fill_circle 1 0 3 BLACK]\<rparr>"

text \<open>All four bounds are set.\<close>

definition found :: "bounds \<Rightarrow> bool" where
  "found b = (min_x b \<noteq> None \<and> max_x b \<noteq> None \<and> min_y b \<noteq> None \<and> max_y b \<noteq> None)"

text \<open>\<open>main_final.py\<close> after \<open>__init__\<close> and one touch at the transposed point
  \<open>(141, 110)\<close>, one pixel right of the left border of the drawing window: the
  plus-shaped brush has set \<open>(141, 110)\<close>, \<open>(142, 110)\<close>, \<open>(140, 110)\<close>, \<open>(141, 111)\<close>
  and \<open>(141, 109)\<close>.\<close>

definition plus_dot :: touchscreen where
  "plus_dot =
     TouchScreen_init
       \<lparr>buffer := (bytearray 9600)[4417 := 14, 4457 := 4, 4377 := 4],
        last_x := Some 141, last_y := Some 110,
        Screen := Screen TouchScreen_init @ [Fill_circle 141 110 1 BLACK]\<rparr>"

section \<open>Properties\<close>

subsection \<open>FrameBuffer accessors\<close>

lemma and_then_Inr [simp]: "and_then (Inr v) f = f v"
  by (simp add: and_then_def)

lemma and_then_Inl [simp]: "and_then (Inl e) f = Inl e"
  by (simp add: and_then_def)

lemma byte_index_bound:
  "0 \<le> x \<Longrightarrow> x < 320 \<Longrightarrow> 0 \<le> y \<Longrightarrow> y < 240 \<Longrightarrow> 0 \<le> (y * 320 + x) div 8 \<and> (y * 320 + x) div 8 < (9600::int)"
  by auto

lemma byte_index_nat:
  "0 \<le> x \<Longrightarrow> x < 320 \<Longrightarrow> 0 \<le> y \<Longrightarrow> y < 240 \<Longrightarrow> nat ((y * 320 + x) div 8) < 9600"
  using byte_index_bound [of x y] by linarith

lemma getitem_in_canvas:
  assumes "length buf = 9600" "0 \<le> x" "x < 320" "0 \<le> y" "y < 240"
  shows "getitem buf ((y * 320 + x) div 8) = Inr (buf ! nat ((y * 320 + x) div 8))"
  using assms byte_index_bound [of x y] by (simp add: getitem_def Let_def)

lemma test_bit_mask: "((b::byte) AND push_bit k 1 \<noteq> 0) = bit b k"
  by (simp only: bit_iff_and_push_bit_not_eq_0)

lemma get_pixel_ink: "length buf = 9600 \<Longrightarrow> get_pixel buf x y = Inr (ink buf x y)"
  by (auto simp add: get_pixel_def ink_def Let_def getitem_in_canvas test_bit_mask simp del: push_bit_of_1)

lemma set_pixel_in_canvas:
  assumes "length buf = 9600" "0 \<le> x" "x < 320" "0 \<le> y" "y < 240"
  shows "set_pixel buf x y state =
     Inr (buf[nat ((y * 320 + x) div 8) :=
            buf ! nat ((y * 320 + x) div 8) OR push_bit (nat (7 - (y * 320 + x) mod 8)) (of_bool state)])"
  using assms byte_index_bound [of x y]
  by (simp add: set_pixel_def Let_def ior_item_def getitem_in_canvas setitem_def del: push_bit_of_1)

lemma set_pixel_outside:
  "\<not> (0 \<le> x \<and> x < 320 \<and> 0 \<le> y \<and> y < 240) \<Longrightarrow> set_pixel buf x y state = Inr buf"
  by (auto simp add: set_pixel_def)

lemma set_pixel_length:
  "length buf = 9600 \<Longrightarrow> \<exists>buf'. set_pixel buf x y state = Inr buf' \<and> length buf' = 9600"
  by (cases "0 \<le> x \<and> x < 320 \<and> 0 \<le> y \<and> y < 240") (simp_all add: set_pixel_in_canvas set_pixel_outside del: push_bit_of_1)

lemma same_idx:
  assumes "0 \<le> x" "x < 320" "0 \<le> x'" "x' < 320" "y * 320 + x = y' * 320 + x'"
  shows "x = x' \<and> y = (y'::int)"
proof -
  have "\<not> y < y'" using assms by linarith
  moreover have "\<not> y' < y" using assms by linarith
  ultimately have "y = y'" by linarith
  with assms show ?thesis by simp
qed

lemma nat_eqs:
  fixes i j :: int
  assumes "0 \<le> i" "0 \<le> j"
  shows "(nat (j div 8) = nat (i div 8) \<and> nat (7 - j mod 8) = nat (7 - i mod 8)) = (j = i)"
proof -
  have "0 \<le> i div 8" "0 \<le> j div 8" using assms by simp_all
  then have a: "(nat (j div 8) = nat (i div 8)) = (j div 8 = i div 8)"
    by (simp add: eq_nat_nat_iff)
  have "0 \<le> 7 - i mod 8" "0 \<le> 7 - j mod 8"
    using pos_mod_bound [of 8 i] pos_mod_bound [of 8 j] by simp_all
  then have b: "(nat (7 - j mod 8) = nat (7 - i mod 8)) = (j mod 8 = i mod 8)"
    by (simp add: eq_nat_nat_iff)
  have c: "(j div 8 = i div 8 \<and> j mod 8 = i mod 8) = (j = i)"
    by (metis mult_div_mod_eq)
  show ?thesis unfolding a b by (rule c)
qed

lemma same_bit_same_pixel:
  assumes "0 \<le> x" "x < 320" "0 \<le> y" "0 \<le> x'" "x' < 320" "0 \<le> y'"
  shows "(nat ((y' * 320 + x') div 8) = nat ((y * 320 + x) div 8) \<and>
          nat (7 - (y' * 320 + x') mod 8) = nat (7 - (y * 320 + x) mod 8)) = (x' = x \<and> y' = y)"
proof -
  have "0 \<le> y * 320 + x" "0 \<le> y' * 320 + x'" using assms by simp_all
  then have "(nat ((y' * 320 + x') div 8) = nat ((y * 320 + x) div 8) \<and>
          nat (7 - (y' * 320 + x') mod 8) = nat (7 - (y * 320 + x) mod 8)) = (y' * 320 + x' = y * 320 + x)"
    by (rule nat_eqs)
  also have "\<dots> = (x' = x \<and> y' = y)"
    using same_idx [of x' x y' y] assms by blast
  finally show ?thesis .
qed

lemma bit_or_mask: "k < 8 \<Longrightarrow> bit ((b::byte) OR push_bit k 1) j = (bit b j \<or> j = k)"
  by (auto simp add: bit_simps)

lemma ink_set_pixel:
  assumes "length buf = 9600" "0 \<le> x" "x < 320" "0 \<le> y" "y < 240"
    and "set_pixel buf x y True = Inr buf'"
  shows "ink buf' x' y' = (ink buf x' y' \<or> (x' = x \<and> y' = y))"
proof (cases "0 \<le> x' \<and> x' < 320 \<and> 0 \<le> y' \<and> y' < 240")
  case False
  with assms(2-5) show ?thesis by (auto simp add: ink_def)
next
  case True
  define i where "i = nat ((y * 320 + x) div 8)"
  define j where "j = nat ((y' * 320 + x') div 8)"
  define k where "k = nat (7 - (y * 320 + x) mod 8)"
  define l where "l = nat (7 - (y' * 320 + x') mod 8)"
  have b: "buf' = buf[i := buf ! i OR push_bit k 1]"
    using assms set_pixel_in_canvas [of buf x y True] by (simp add: i_def k_def del: push_bit_of_1)
  have lt: "i < length buf" "j < length buf"
    using assms(1-5) True byte_index_nat [of x y] byte_index_nat [of x' y'] by (simp_all add: i_def j_def)
  have k8: "k < 8" using pos_mod_sign [of 8 "y * 320 + x"] by (simp add: k_def)
  have same: "(j = i \<and> l = k) = (x' = x \<and> y' = y)"
    unfolding i_def j_def k_def l_def using assms(2-5) True by (intro same_bit_same_pixel) simp_all
  have "bit (buf' ! j) l = (bit (buf ! j) l \<or> (j = i \<and> l = k))"
  proof (cases "j = i")
    case True
    then show ?thesis using b lt k8 by (simp add: bit_or_mask del: push_bit_of_1)
  next
    case False
    then show ?thesis using b lt by simp
  qed
  then have "bit (buf' ! j) l = (bit (buf ! j) l \<or> (x' = x \<and> y' = y))"
    by (simp only: same)
  with True show ?thesis by (simp add: ink_def i_def j_def k_def l_def)
qed

lemma ink_bytearray: "\<not> ink (bytearray 9600) x y"
proof
  assume a: "ink (bytearray 9600) x y"
  then have "nat ((y * 320 + x) div 8) < 9600" using byte_index_nat [of x y] by (simp add: ink_def)
  with a show False by (simp add: ink_def bytearray_def)
qed

lemma buffer_reset_canvas: "buffer (reset_canvas s) = bytearray 9600"
  by (simp add: reset_canvas_def initialize_ui_def screen_do_def addTouchItem_def Let_def)

lemma buffer_reset_canvas_old: "buffer (reset_canvas_old s) = bytearray 9600"
  by (simp add: reset_canvas_old_def initialize_ui_old_def screen_do_def addTouchItem_def Let_def)

lemma length_bytearray: "length (bytearray n) = n"
  by (simp add: bytearray_def)

lemma get_pixel_bytearray: "get_pixel (bytearray 9600) x y = Inr False"
  by (simp add: get_pixel_ink length_bytearray ink_bytearray)

text \<open>
  Claim C4. On a 9600-byte buffer and for a pixel on the canvas, \<open>set_pixel(x, y, True)\<close>
  returns normally, a following \<open>get_pixel(x, y)\<close> returns \<open>True\<close>, and the bit it
  stored is bit \<open>7 - idx mod 8\<close> of byte \<open>idx div 8\<close> for \<open>idx = y * 320 + x\<close>, the
  rest of the buffer being kept. After a canvas reset (either file) \<open>get_pixel\<close>
  returns \<open>False\<close>.
\<close>

theorem set_then_get_pixel:
  assumes "length buf = 9600" and "0 \<le> x" and "x < 320" and "0 \<le> y" and "y < 240"
  shows "(\<exists>buf'. set_pixel buf x y True = Inr buf' \<and> get_pixel buf' x y = Inr True \<and>
            buf' = buf[nat ((y * 320 + x) div 8) :=
                     buf ! nat ((y * 320 + x) div 8) OR push_bit (nat (7 - (y * 320 + x) mod 8)) 1] \<and>
            bit (buf' ! nat ((y * 320 + x) div 8)) (nat (7 - (y * 320 + x) mod 8))) \<and>
         get_pixel (buffer (reset_canvas s)) x y = Inr False \<and>
         get_pixel (buffer (reset_canvas_old s)) x y = Inr False"
proof -
  obtain buf' where b: "set_pixel buf x y True = Inr buf'" and l: "length buf' = 9600"
    using set_pixel_length [OF assms(1)] by blast
  have i: "ink buf' x y"
    using ink_set_pixel [OF assms b, of x y] by simp
  have "get_pixel buf' x y = Inr True"
    using i l by (simp add: get_pixel_ink)
  moreover have "bit (buf' ! nat ((y * 320 + x) div 8)) (nat (7 - (y * 320 + x) mod 8))"
    using i by (simp add: ink_def)
  moreover have "buf' = buf[nat ((y * 320 + x) div 8) :=
                     buf ! nat ((y * 320 + x) div 8) OR push_bit (nat (7 - (y * 320 + x) mod 8)) 1]"
    using b set_pixel_in_canvas [OF assms, of True] by (simp del: push_bit_of_1)
  ultimately show ?thesis
    using b by (simp add: buffer_reset_canvas buffer_reset_canvas_old get_pixel_bytearray del: push_bit_of_1)
qed

theorem set_then_get_pixel_witness:
  "length (bytearray 9600) = 9600 \<and> (0::int) \<le> 3 \<and> (3::int) < 320 \<and> (0::int) \<le> 2 \<and> (2::int) < 240 \<and>
   (\<exists>buf'. set_pixel (bytearray 9600) 3 2 True = Inr buf' \<and> get_pixel buf' 3 2 = Inr True \<and>
            buf' = (bytearray 9600)[80 := 16] \<and> bit (buf' ! 80) 4) \<and>
   get_pixel (buffer (reset_canvas TouchScreen_init)) 3 2 = Inr False \<and>
   get_pixel (buffer (reset_canvas_old TouchScreen_init)) 3 2 = Inr False"
  using set_then_get_pixel [of "bytearray 9600" 3 2 TouchScreen_init]
  by (simp add: length_bytearray bytearray_def)

text \<open>
  Claim C5. For coordinates outside the canvas and any state, \<open>set_pixel\<close> returns
  normally with the buffer unchanged and \<open>get_pixel\<close> returns \<open>False\<close>; this holds for
  a buffer of any length, so neither accessor can raise.
\<close>

theorem pixel_outside_canvas:
  "\<not> (0 \<le> x \<and> x < 320 \<and> 0 \<le> y \<and> y < 240) \<Longrightarrow>
     set_pixel buf x y state = Inr buf \<and> get_pixel buf x y = Inr False"
  by (auto simp add: set_pixel_def get_pixel_def)

theorem pixel_outside_canvas_witness:
  "\<not> ((0::int) \<le> 320 \<and> (320::int) < 320 \<and> (0::int) \<le> 0 \<and> (0::int) < 240) \<and>
     set_pixel [] 320 0 True = Inr [] \<and> get_pixel [] 320 0 = Inr False"
  using pixel_outside_canvas [of 320 0 "[]" True] by simp

lemma set_pixel_False:
  assumes "length buf = 9600"
  shows "set_pixel buf x y False = Inr buf"
proof (cases "0 \<le> x \<and> x < 320 \<and> 0 \<le> y \<and> y < 240")
  case True
  then show ?thesis using set_pixel_in_canvas [of buf x y False] assms by simp
next
  case False
  then show ?thesis by (rule set_pixel_outside)
qed

lemma ink_set_pixel_mono:
  assumes "length buf = 9600" and "set_pixel buf x y state = Inr buf'" and "ink buf x' y'"
  shows "ink buf' x' y'"
proof (cases "state \<and> 0 \<le> x \<and> x < 320 \<and> 0 \<le> y \<and> y < 240")
  case True
  then show ?thesis using ink_set_pixel [of buf x y buf' x' y'] assms by simp
next
  case False
  then have "set_pixel buf x y state = Inr buf"
    using set_pixel_False [OF assms(1)] set_pixel_outside [of x y buf state] by (cases state) auto
  with assms show ?thesis by simp
qed

lemma set_pixels_mono:
  assumes "length buf = 9600"
  shows "\<exists>buf'. set_pixels buf calls = Inr buf' \<and>
           length buf' = 9600 \<and> (\<forall>x' y'. ink buf x' y' \<longrightarrow> ink buf' x' y')"
  using assms
proof (induction calls arbitrary: buf)
  case Nil
  then show ?case by simp
next
  case (Cons c calls)
  obtain x y state where c: "c = (x, y, state)" by (cases c) auto
  obtain b1 where b1: "set_pixel buf x y state = Inr b1" "length b1 = 9600"
    using set_pixel_length [OF Cons.prems] by blast
  obtain b2 where b2: "set_pixels b1 calls = Inr b2"
     "length b2 = 9600" "\<forall>x' y'. ink b1 x' y' \<longrightarrow> ink b2 x' y'"
    using Cons.IH [OF b1(2)] by blast
  have "\<forall>x' y'. ink buf x' y' \<longrightarrow> ink b2 x' y'"
    using ink_set_pixel_mono [OF Cons.prems b1(1)] b2(3) by blast
  with b1 b2 c show ?case by simp
qed

text \<open>
  Claim C9. \<open>set_pixel(x, y, False)\<close> leaves the buffer as it is; after any sequence of
  \<open>set_pixel\<close> calls every pixel that was ink is still ink; a canvas reset puts every
  pixel back to blank.
\<close>

theorem set_pixel_never_clears:
  assumes "length buf = 9600"
  shows "set_pixel buf x y False = Inr buf \<and>
         (\<exists>buf'. set_pixels buf calls = Inr buf' \<and>
            (\<forall>x' y'. get_pixel buf x' y' = Inr True \<longrightarrow> get_pixel buf' x' y' = Inr True)) \<and>
         (\<forall>x' y'. get_pixel (buffer (reset_canvas s)) x' y' = Inr False)"
proof -
  obtain buf' where b: "set_pixels buf calls = Inr buf'"
    "length buf' = 9600" "\<forall>x' y'. ink buf x' y' \<longrightarrow> ink buf' x' y'"
    using set_pixels_mono [OF assms] by blast
  have "\<forall>x' y'. get_pixel buf x' y' = Inr True \<longrightarrow> get_pixel buf' x' y' = Inr True"
    using b(2,3) assms by (simp add: get_pixel_ink)
  with b(1) show ?thesis
    using set_pixel_False [OF assms] by (simp add: buffer_reset_canvas get_pixel_bytearray)
qed

theorem set_pixel_never_clears_witness:
  "length ((bytearray 9600)[0 := 128]) = 9600 \<and>
   set_pixel ((bytearray 9600)[0 := 128]) 0 0 False = Inr ((bytearray 9600)[0 := 128]) \<and>
   (\<exists>buf'. set_pixels ((bytearray 9600)[0 := 128]) [(0, 0, False), (1, 0, True)] = Inr buf' \<and>
      (\<forall>x' y'. get_pixel ((bytearray 9600)[0 := 128]) x' y' = Inr True \<longrightarrow> get_pixel buf' x' y' = Inr True)) \<and>
   (\<forall>x' y'. get_pixel (buffer (reset_canvas TouchScreen_init)) x' y' = Inr False)"
  using set_pixel_never_clears [of "(bytearray 9600)[0 := 128]" 0 0 "[(0, 0, False), (1, 0, True)]" TouchScreen_init]
  by (simp add: length_bytearray del: set_pixels.simps)

subsection \<open>Serial frame\<close>

text \<open>In \<open>main_final.py\<close> the frame of a 98-byte sample has 99 bytes and starts with the
  zero padding byte.\<close>

lemma send_uart_data_frame:
  "length sample = 98 \<Longrightarrow>
     uart (send_uart_data s sample) = uart s @ [0 # sample] \<and>
     length (last (uart (send_uart_data s sample))) = 99 \<and>
     hd (last (uart (send_uart_data s sample))) = 0"
  by (simp add: send_uart_data_def)

text \<open>
  Claim C1, in \<open>mainESPold.py\<close>: \<open>send_uart_data\<close> writes the sample as it is. For the
  98-byte sample that starts with \<open>0x80\<close> the peripheral receives 98 bytes, the first
  of them \<open>0x80\<close>: no padding byte is sent.
\<close>

theorem send_uart_data_old_unpadded:
  "uart (send_uart_data_old TouchScreen_init_old (128 # replicate 97 0)) = [128 # replicate 97 0] \<and>
   length (last (uart (send_uart_data_old TouchScreen_init_old (128 # replicate 97 0)))) = 98 \<and>
   hd (last (uart (send_uart_data_old TouchScreen_init_old (128 # replicate 97 0)))) = 128"
  by (simp add: send_uart_data_old_def TouchScreen_init_old_def initialize_ui_old_def screen_do_def
      addTouchItem_def Let_def)

subsection \<open>Touch events\<close>

text \<open>
  Claim C6. With the freeze latch set, \<open>touch_handler\<close> returns the state it was given,
  for every raw touch event: buffer, last point, display commands and serial frames
  are those of before, so nothing was drawn and no registered action ran.
\<close>

theorem touch_handler_frozen:
  "freeze s \<Longrightarrow> touch_handler s x_raw y_raw = Some (Inr s) \<and> touch_handler_old fl s x_raw y_raw = Some (Inr s)"
  by (simp add: touch_handler_def touch_handler_old_def)

theorem touch_handler_frozen_witness:
  "freeze (TouchScreen_init\<lparr>freeze := True\<rparr>) \<and>
   touch_handler (TouchScreen_init\<lparr>freeze := True\<rparr>) 110 150 = Some (Inr (TouchScreen_init\<lparr>freeze := True\<rparr>)) \<and>
   touch_handler_old (\<lambda>a k n. a) (TouchScreen_init\<lparr>freeze := True\<rparr>) 110 150
     = Some (Inr (TouchScreen_init\<lparr>freeze := True\<rparr>))"
  using touch_handler_frozen [of "TouchScreen_init\<lparr>freeze := True\<rparr>" 110 150 "\<lambda>a k n. a"] by simp

subsection \<open>The bounding-box scan\<close>

lemma for_each_pure:
  "(\<And>v st. v \<in> set vs \<Longrightarrow> body v st = Inr (f v st)) \<Longrightarrow> for_each vs body st = Inr (fold f vs st)"
  by (induction vs arbitrary: st) simp_all

lemma fold_rows:
  "fold (\<lambda>y. fold (\<lambda>x. g (x, y)) xs) ys b = fold g (concat (map (\<lambda>y. map (\<lambda>x. (x, y)) xs) ys)) b"
  by (induction ys arbitrary: b) (simp_all add: fold_map comp_def)

lemma find_bounds_fold:
  assumes "length buf = 9600"
  shows "find_bounds buf = Inr (fold (scan_step buf) canvas_points no_bounds)"
proof -
  have row: "\<And>y b. for_each (py_range 0 320)
       (\<lambda>x b. case get_pixel buf x y of Inl e \<Rightarrow> Inl e | Inr p \<Rightarrow> Inr (if p then update_bounds x y b else b)) b
     = Inr (fold (\<lambda>x. scan_step buf (x, y)) (py_range 0 320) b)"
    by (rule for_each_pure) (simp add: get_pixel_ink [OF assms] scan_step_def)
  have "find_bounds buf = Inr (fold (\<lambda>y. fold (\<lambda>x. scan_step buf (x, y)) (py_range 0 320)) (py_range 0 240) no_bounds)"
    unfolding find_bounds_def by (rule for_each_pure) (rule row)
  then show ?thesis by (simp add: fold_rows canvas_points_def)
qed

lemma set_py_range: "set (py_range a b) = {a..<b}"
proof (rule set_eqI)
  fix v
  show "v \<in> set (py_range a b) \<longleftrightarrow> v \<in> {a..<b}"
  proof
    assume "v \<in> set (py_range a b)"
    then obtain i where "i < nat (b - a)" "v = a + int i" by (auto simp add: py_range_def)
    then show "v \<in> {a..<b}" by auto
  next
    assume v: "v \<in> {a..<b}"
    then have "nat (v - a) < nat (b - a)" "v = a + int (nat (v - a))" by auto
    then show "v \<in> set (py_range a b)" unfolding py_range_def by (metis (no_types, lifting) atLeast0LessThan imageI lessThan_iff set_map set_upt)
  qed
qed

lemma distinct_py_range: "distinct (py_range a b)"
  by (simp add: py_range_def distinct_map inj_on_def)

lemma set_canvas_points: "set canvas_points = {(x, y). 0 \<le> x \<and> x < 320 \<and> 0 \<le> y \<and> y < 240}"
  by (auto simp add: canvas_points_def set_py_range)

lemma rows_product:
  "concat (map (\<lambda>y. map (\<lambda>x. (x, y)) xs) ys) = map (\<lambda>p. (snd p, fst p)) (List.product ys xs)"
  by (induction ys) simp_all

lemma distinct_canvas_points: "distinct canvas_points"
  unfolding canvas_points_def rows_product
  by (simp add: distinct_map distinct_product distinct_py_range inj_on_def prod_eq_iff)

lemma py_range_Cons: "a < b \<Longrightarrow> py_range a b = a # py_range (a + 1) b"
proof -
  assume "a < b"
  then have n: "nat (b - a) = Suc (nat (b - (a + 1)))" by simp
  show ?thesis
    unfolding py_range_def n by (simp add: upt_conv_Cons map_Suc_upt [symmetric] del: upt_Suc)
qed

lemma canvas_points_Cons: "\<exists>rest. canvas_points = (0, 0) # rest"
  by (simp add: canvas_points_def py_range_Cons [of 0 320] py_range_Cons [of 0 240])

lemma ink_in_canvas: "ink buf x y \<Longrightarrow> (x, y) \<in> set canvas_points"
  by (simp add: set_canvas_points ink_def)

lemma scan_blank:
  "(\<And>p. p \<in> set ps \<Longrightarrow> \<not> ink buf (fst p) (snd p)) \<Longrightarrow> fold (scan_step buf) ps b = b"
  by (induction ps arbitrary: b) (simp_all add: scan_step_def)

lemma scan_keeps_Some: "min_x b \<noteq> None \<Longrightarrow> min_x (fold (scan_step buf) ps b) \<noteq> None"
  by (induction ps arbitrary: b) (simp_all add: scan_step_def update_bounds_def)

lemma scan_finds:
  "p \<in> set ps \<Longrightarrow> ink buf (fst p) (snd p) \<Longrightarrow> min_x (fold (scan_step buf) ps b) \<noteq> None"
proof (induction ps arbitrary: b)
  case Nil
  then show ?case by simp
next
  case (Cons q ps)
  show ?case
  proof (cases "ink buf (fst q) (snd q)")
    case True
    then have "min_x (scan_step buf q b) \<noteq> None" by (simp add: scan_step_def update_bounds_def)
    then show ?thesis by (simp add: scan_keeps_Some)
  next
    case False
    with Cons.prems have "p \<in> set ps" by auto
    with Cons show ?thesis by simp
  qed
qed

lemma find_bounds_None_iff:
  assumes "length buf = 9600"
  shows "\<exists>b. find_bounds buf = Inr b \<and> (min_x b = None) = (\<forall>x y. \<not> ink buf x y)"
proof (cases "\<forall>x y. \<not> ink buf x y")
  case True
  then have "fold (scan_step buf) canvas_points no_bounds = no_bounds"
    by (intro scan_blank) simp
  with True show ?thesis by (simp add: find_bounds_fold [OF assms] no_bounds_def)
next
  case False
  then obtain x y where i: "ink buf x y" by blast
  have "min_x (fold (scan_step buf) canvas_points no_bounds) \<noteq> None"
    using scan_finds [of "(x, y)" canvas_points buf] i ink_in_canvas [OF i] by simp
  with False show ?thesis by (auto simp add: find_bounds_fold [OF assms])
qed

lemma fold_skip:
  "p \<notin> set ps \<Longrightarrow> fold (\<lambda>q b. if q = p then f q b else b) ps b = b"
  by (induction ps arbitrary: b) auto

lemma fold_one:
  "distinct ps \<Longrightarrow> p \<in> set ps \<Longrightarrow> fold (\<lambda>q b. if q = p then f q b else b) ps b = f p b"
proof (induction ps arbitrary: b)
  case Nil
  then show ?case by simp
next
  case (Cons q ps)
  show ?case
  proof (cases "q = p")
    case True
    then have "p \<notin> set ps" using Cons.prems by simp
    then have "fold (\<lambda>q b. if q = p then f q b else b) ps (f p b) = f p b"
      by (rule fold_skip)
    with True show ?thesis by simp
  next
    case False
    with Cons show ?thesis by simp
  qed
qed

lemma set_pixel_first: "set_pixel (bytearray 9600) 0 0 True = Inr ((bytearray 9600)[0 := 128])"
  using set_pixel_in_canvas [of "bytearray 9600" 0 0 True]
  by (simp add: length_bytearray) (simp add: bytearray_def)

lemma ink_one_dot: "ink ((bytearray 9600)[0 := 128]) x y = (x = 0 \<and> y = 0)"
  using ink_set_pixel [OF _ _ _ _ _ set_pixel_first, of x y]
  by (simp add: length_bytearray ink_bytearray)

lemma set_pixel_second: "set_pixel ((bytearray 9600)[0 := 128]) 1 0 True = Inr ((bytearray 9600)[0 := 192])"
  using set_pixel_in_canvas [of "(bytearray 9600)[0 := 128]" 1 0 True]
  by (simp add: length_bytearray)

lemma ink_two_dots: "ink ((bytearray 9600)[0 := 192]) x y = ((x = 0 \<and> y = 0) \<or> (x = 1 \<and> y = 0))"
  using ink_set_pixel [OF _ _ _ _ _ set_pixel_second, of x y]
  by (simp add: length_bytearray ink_one_dot)

lemma find_bounds_one_dot:
  "find_bounds ((bytearray 9600)[0 := 128]) = Inr (update_bounds 0 0 no_bounds)"
proof -
  have step: "scan_step ((bytearray 9600)[0 := 128]) =
      (\<lambda>q b. if q = (0, 0) then update_bounds (fst q) (snd q) b else b)"
    by (rule ext, rule ext) (simp add: scan_step_def ink_one_dot prod_eq_iff)
  have "(0, 0) \<in> set canvas_points" by (simp add: set_canvas_points)
  then have "fold (scan_step ((bytearray 9600)[0 := 128])) canvas_points no_bounds = update_bounds 0 0 no_bounds"
    unfolding step using fold_one [OF distinct_canvas_points, of "(0, 0)" "\<lambda>q. update_bounds (fst q) (snd q)"]
    by simp
  then show ?thesis by (simp add: find_bounds_fold length_bytearray)
qed

lemma find_bounds_two_dots:
  "find_bounds ((bytearray 9600)[0 := 192]) = Inr (update_bounds 1 0 (update_bounds 0 0 no_bounds))"
proof -
  obtain rest where r: "canvas_points = (0, 0) # rest" using canvas_points_Cons by blast
  have d: "distinct rest" "(0, 0) \<notin> set rest" using distinct_canvas_points unfolding r by simp_all
  have "((1::int), (0::int)) \<in> set canvas_points" by (simp add: set_canvas_points)
  then have m: "((1::int), (0::int)) \<in> set rest" unfolding r by simp
  have "fold (scan_step ((bytearray 9600)[0 := 192])) rest b =
        fold (\<lambda>q b. if q = (1, 0) then update_bounds (fst q) (snd q) b else b) rest b" for b
    using d(2) by (intro List.fold_cong) (auto simp add: scan_step_def ink_two_dots prod_eq_iff)
  then have "fold (scan_step ((bytearray 9600)[0 := 192])) rest b = update_bounds 1 0 b" for b
    using fold_one [OF d(1) m, of "\<lambda>q. update_bounds (fst q) (snd q)"] by simp
  then have "fold (scan_step ((bytearray 9600)[0 := 192])) canvas_points no_bounds =
        update_bounds 1 0 (update_bounds 0 0 no_bounds)"
    by (simp add: r scan_step_def ink_two_dots)
  then show ?thesis by (simp add: find_bounds_fold length_bytearray)
qed

text \<open>
  Claim C2, in \<open>mainESPold.py\<close>: with the single ink pixel \<open>(0, 0)\<close> the scan ends
  with \<open>min_x = 0\<close>, \<open>if not min_x\<close> holds and \<open>process_mnist_data\<close> leaves through
  its "No drawing found" exit, although a pixel is set.
\<close>

theorem no_drawing_found_despite_ink:
  "process_mnist_data_old fl one_dot_old = Inr (NoDrawingFound, one_dot_old) \<and>
   get_pixel (buffer one_dot_old) 0 0 = Inr True"
  by (simp add: process_mnist_data_old_def one_dot_old_def find_bounds_one_dot
      update_bounds_def no_bounds_def min_if_def truthy_def get_pixel_ink length_bytearray ink_one_dot)

lemma first_touch_old: "touch_handler_old fl TouchScreen_init_old 0 0 = Some (Inr one_dot_old)"
  by (simp add: touch_handler_old_def TouchScreen_init_old_def initialize_ui_old_def screen_do_def
      addTouchItem_def Let_def TouchArea_def in_range_def process_drawing_old_def
      process_drawing_with_def draw_point_old_def set_pixel_first one_dot_old_def)

text \<open>
  Claim C3, in \<open>mainESPold.py\<close>: a touch at \<open>(0, 0)\<close> and then a touch on the SAVE
  button. The save action ends in "No drawing found", transmits nothing and clears
  the latch, but \<open>reset_canvas\<close> has replaced the buffer: pixel \<open>(0, 0)\<close> was ink
  before and is blank after.
\<close>

theorem save_clears_unreported_drawing:
  "touch_handler_old fl TouchScreen_init_old 0 0 = Some (Inr one_dot_old) \<and>
   process_mnist_data_old fl (one_dot_old\<lparr>freeze := True\<rparr>) = Inr (NoDrawingFound, one_dot_old\<lparr>freeze := True\<rparr>) \<and>
   touch_handler_old fl one_dot_old 210 290 = Some (save_mnist_old fl one_dot_old) \<and>
   save_mnist_old fl one_dot_old = Inr (reset_canvas_old one_dot_old) \<and>
   uart (reset_canvas_old one_dot_old) = uart one_dot_old \<and>
   \<not> freeze (reset_canvas_old one_dot_old) \<and>
   get_pixel (buffer one_dot_old) 0 0 = Inr True \<and>
   get_pixel (buffer (reset_canvas_old one_dot_old)) 0 0 = Inr False \<and>
   buffer (reset_canvas_old one_dot_old) \<noteq> buffer one_dot_old"
proof -
  have p: "process_mnist_data_old fl (one_dot_old\<lparr>freeze := True\<rparr>) =
      Inr (NoDrawingFound, one_dot_old\<lparr>freeze := True\<rparr>)"
    by (simp add: process_mnist_data_old_def one_dot_old_def find_bounds_one_dot
        update_bounds_def no_bounds_def min_if_def truthy_def)
  have f: "\<not> freeze one_dot_old" "uart one_dot_old = []"
      "Touch_items one_dot_old = [TouchArea 280 208 32 32]" "Touch_callbacks one_dot_old = [Save_mnist]"
    by (simp_all add: one_dot_old_def TouchScreen_init_old_def initialize_ui_old_def screen_do_def
        addTouchItem_def Let_def)
  have r: "(reset_canvas_old (one_dot_old\<lparr>freeze := True\<rparr>))\<lparr>freeze := False\<rparr> = reset_canvas_old one_dot_old"
    using f(1) by (simp add: reset_canvas_old_def initialize_ui_old_def screen_do_def addTouchItem_def Let_def)
  have s: "save_mnist_old fl one_dot_old = Inr (reset_canvas_old one_dot_old)"
    by (simp add: save_mnist_old_def p r)
  have t: "touch_handler_old fl one_dot_old 210 290 = Some (save_mnist_old fl one_dot_old)"
    by (simp add: touch_handler_old_def f TouchArea_def in_range_def call_old_def)
  have u: "uart (reset_canvas_old one_dot_old) = uart one_dot_old" "\<not> freeze (reset_canvas_old one_dot_old)"
    using f(1) by (simp_all add: reset_canvas_old_def initialize_ui_old_def screen_do_def addTouchItem_def Let_def)
  have g: "get_pixel (buffer one_dot_old) 0 0 = Inr True"
    by (simp add: one_dot_old_def get_pixel_ink length_bytearray ink_one_dot)
  have h: "get_pixel (buffer (reset_canvas_old one_dot_old)) 0 0 = Inr False"
    by (simp add: buffer_reset_canvas_old get_pixel_bytearray)
  from g h have n: "buffer (reset_canvas_old one_dot_old) \<noteq> buffer one_dot_old" by auto
  show ?thesis using first_touch_old p s t u g h n by simp
qed

subsection \<open>One iteration of the line loop\<close>

text \<open>With \<open>rx\<close> and \<open>ry\<close> steps left to go in each direction the error term is
  \<open>dx - dy + rx * dy - ry * dx\<close>. Then the loop steps in x only when steps in x are
  left, in y only when steps in y are left, and in one direction at least.\<close>

lemma bresenham_step:
  fixes rx ry dx dy err :: int
  assumes "0 \<le> rx" "rx \<le> dx" "0 \<le> ry" "ry \<le> dy"
    and e: "err = dx - dy + rx * dy - ry * dx" and "rx \<noteq> 0 \<or> ry \<noteq> 0"
  shows "(2 * err > - dy \<longrightarrow> 0 < rx) \<and> (2 * err < dx \<longrightarrow> 0 < ry) \<and> (2 * err > - dy \<or> 2 * err < dx)"
proof -
  have a: "2 * err > - dy \<longrightarrow> 0 < rx"
  proof (rule ccontr)
    assume "\<not> (2 * err > - dy \<longrightarrow> 0 < rx)"
    then have m: "2 * err > - dy" and "rx = 0" using assms(1) by auto
    then have "1 \<le> ry" and e': "err = dx - dy - ry * dx" using assms by auto
    then have "0 \<le> (ry - 1) * dx" using assms by (intro mult_nonneg_nonneg) auto
    then have "dx \<le> ry * dx" by (simp add: algebra_simps)
    with e' m assms show False by linarith
  qed
  have b: "2 * err < dx \<longrightarrow> 0 < ry"
  proof (rule ccontr)
    assume "\<not> (2 * err < dx \<longrightarrow> 0 < ry)"
    then have m: "2 * err < dx" and "ry = 0" using assms(3) by auto
    then have "1 \<le> rx" and e': "err = dx - dy + rx * dy" using assms by auto
    then have "0 \<le> (rx - 1) * dy" using assms by (intro mult_nonneg_nonneg) auto
    then have "dy \<le> rx * dy" by (simp add: algebra_simps)
    with e' m assms show False by linarith
  qed
  have c: "2 * err > - dy \<or> 2 * err < dx"
    using assms by linarith
  from a b c show ?thesis by blast
qed

lemma bresenham_err:
  fixes rx ry dx dy err :: int
  assumes "err = dx - dy + rx * dy - ry * dx"
  shows "err - dy = dx - dy + (rx - 1) * dy - ry * dx"
    and "err + dx = dx - dy + rx * dy - (ry - 1) * dx"
    and "err - dy + dx = dx - dy + (rx - 1) * dy - (ry - 1) * dx"
  using assms by (simp_all add: algebra_simps)

lemma draw_point_total:
  assumes "length (buffer s) = 9600"
  shows "\<exists>s'. draw_point s x y = Inr s' \<and> length (buffer s') = 9600 \<and>
              last_x s' = last_x s \<and> last_y s' = last_y s"
proof -
  obtain b1 where b1: "set_pixel (buffer s) x y True = Inr b1" "length b1 = 9600"
    using set_pixel_length [OF assms] by blast
  obtain b2 where b2: "set_pixel b1 (x + 1) y True = Inr b2" "length b2 = 9600"
    using set_pixel_length [OF b1(2)] by blast
  obtain b3 where b3: "set_pixel b2 (x - 1) y True = Inr b3" "length b3 = 9600"
    using set_pixel_length [OF b2(2)] by blast
  obtain b4 where b4: "set_pixel b3 x (y + 1) True = Inr b4" "length b4 = 9600"
    using set_pixel_length [OF b3(2)] by blast
  obtain b5 where b5: "set_pixel b4 x (y - 1) True = Inr b5" "length b5 = 9600"
    using set_pixel_length [OF b4(2)] by blast
  show ?thesis
    using assms b1 b2 b3 b4 b5 by (simp add: draw_point_def)
qed


lemma draw_point_last:
  "draw_point (s\<lparr>last_x := a, last_y := b\<rparr>) x y =
     (case draw_point s x y of Inl e \<Rightarrow> Inl e | Inr s' \<Rightarrow> Inr (s'\<lparr>last_x := a, last_y := b\<rparr>))"
  by (simp add: draw_point_def and_then_def split: sum.splits)


lemma plot_all_last:
  assumes com: "\<And>s x y a b. dp (s\<lparr>last_x := a, last_y := b\<rparr>) x y =
     (case dp s x y of Inl e \<Rightarrow> Inl e | Inr s' \<Rightarrow> Inr (s'\<lparr>last_x := a, last_y := b\<rparr>))"
  shows "plot_all dp (s\<lparr>last_x := a, last_y := b\<rparr>) pts =
     (case plot_all dp s pts of Inl e \<Rightarrow> Inl e | Inr s' \<Rightarrow> Inr (s'\<lparr>last_x := a, last_y := b\<rparr>))"
  by (induction pts arbitrary: s) (simp_all add: com split: sum.splits)

lemma draw_line_loop_path:
  assumes tot: "\<And>s x y. length (buffer s) = 9600 \<Longrightarrow>
      \<exists>s'. dp s x y = Inr s' \<and> length (buffer s') = 9600 \<and> last_x s' = last_x s \<and> last_y s' = last_y s"
    and com: "\<And>s x y a b. dp (s\<lparr>last_x := a, last_y := b\<rparr>) x y =
      (case dp s x y of Inl e \<Rightarrow> Inl e | Inr s' \<Rightarrow> Inr (s'\<lparr>last_x := a, last_y := b\<rparr>))"
  shows "n = nat (rx + ry) \<Longrightarrow> 0 \<le> rx \<Longrightarrow> rx \<le> dx \<Longrightarrow> 0 \<le> ry \<Longrightarrow> ry \<le> dy \<Longrightarrow>
     sx = 1 \<or> sx = - 1 \<Longrightarrow> sy = 1 \<or> sy = - 1 \<Longrightarrow> x = lx + sx * rx \<Longrightarrow> y = ly + sy * ry \<Longrightarrow>
     err = dx - dy + rx * dy - ry * dx \<Longrightarrow>
     last_x s = Some lx \<Longrightarrow> last_y s = Some ly \<Longrightarrow> length (buffer s) = 9600 \<Longrightarrow>
     \<exists>pts s'. pts \<noteq> [] \<and> hd pts = (lx, ly) \<and> last pts = (x, y) \<and> connected8 pts \<and>
        plot_all dp s pts = Inr s' \<and>
        draw_line_loop dp x y dx dy sx sy err s = Some (Inr (s'\<lparr>last_x := Some x, last_y := Some y\<rparr>))"
proof (induction n arbitrary: rx ry lx ly err s rule: less_induct)
  case (less n)
  obtain s1 where s1: "dp s lx ly = Inr s1" "length (buffer s1) = 9600"
      "last_x s1 = Some lx" "last_y s1 = Some ly"
    using tot [OF less.prems(13), of lx ly] less.prems(11,12) by auto
  show ?case
  proof (cases "rx = 0 \<and> ry = 0")
    case True
    then have xy: "lx = x" "ly = y" using less.prems by simp_all
    have "s1\<lparr>last_x := Some x, last_y := Some y\<rparr> = s1"
      using s1(3,4) xy by simp
    then have "draw_line_loop dp x y dx dy sx sy err s = Some (Inr (s1\<lparr>last_x := Some x, last_y := Some y\<rparr>))"
      using draw_line_loop.simps [of dp x y dx dy sx sy err s] less.prems(11,12) s1(1) xy by simp
    moreover have "plot_all dp s [(lx, ly)] = Inr s1" using s1(1) by simp
    ultimately show ?thesis
      using xy by (intro exI [of _ "[(lx, ly)]"] exI [of _ s1]) simp
  next
    case False
    then have ne: "\<not> (lx = x \<and> ly = y)" using less.prems(6-9) by auto
    define mx where "mx = (2 * err > - dy)"
    define my where "my = (2 * err < dx)"
    define rx' where "rx' = (if mx then rx - 1 else rx)"
    define ry' where "ry' = (if my then ry - 1 else ry)"
    define lx' where "lx' = (if mx then lx + sx else lx)"
    define ly' where "ly' = (if my then ly + sy else ly)"
    define err' where "err' = (if my then (if mx then err - dy else err) + dx else (if mx then err - dy else err))"
    define s2 where "s2 = s1\<lparr>last_x := Some lx', last_y := Some ly'\<rparr>"
    have st: "(mx \<longrightarrow> 0 < rx) \<and> (my \<longrightarrow> 0 < ry) \<and> (mx \<or> my)"
      unfolding mx_def my_def
      using less.prems(2-5,10) False by (intro bresenham_step) auto
    have unfold: "draw_line_loop dp x y dx dy sx sy err s = draw_line_loop dp x y dx dy sx sy err' s2"
      using draw_line_loop.simps [of dp x y dx dy sx sy err s] less.prems(11,12) s1(1) ne
      by (simp add: Let_def mx_def my_def lx'_def ly'_def err'_def s2_def)
    have r: "0 \<le> rx'" "rx' \<le> dx" "0 \<le> ry'" "ry' \<le> dy"
      using st less.prems(2-5) by (auto simp add: rx'_def ry'_def)
    have dec: "rx' + ry' < rx + ry"
    proof (cases mx)
      case True
      then show ?thesis by (simp add: rx'_def ry'_def)
    next
      case False
      with st have my by blast
      with False show ?thesis by (simp add: rx'_def ry'_def)
    qed
    have pos: "0 < rx + ry" using dec r(1,3) by linarith
    have m: "nat (rx' + ry') < n"
      unfolding less.prems(1) using dec pos by (simp add: nat_mono_iff)
    have x': "x = lx' + sx * rx'"
      unfolding less.prems(8) lx'_def rx'_def by (simp add: algebra_simps)
    have y': "y = ly' + sy * ry'"
      unfolding less.prems(9) ly'_def ry'_def by (simp add: algebra_simps)
    have e': "err' = dx - dy + rx' * dy - ry' * dx"
      unfolding err'_def rx'_def ry'_def less.prems(10) by (simp add: algebra_simps)
    have l2: "last_x s2 = Some lx'" "last_y s2 = Some ly'" "length (buffer s2) = 9600"
      using s1(2) by (simp_all add: s2_def)
    obtain pts s3 where p: "pts \<noteq> []" "hd pts = (lx', ly')" "last pts = (x, y)" "connected8 pts"
        "plot_all dp s2 pts = Inr s3"
        "draw_line_loop dp x y dx dy sx sy err' s2 = Some (Inr (s3\<lparr>last_x := Some x, last_y := Some y\<rparr>))"
      using less.IH [OF m refl r less.prems(6,7) x' y' e' l2] by blast
    obtain s4 where s4: "plot_all dp s1 pts = Inr s4" "s3 = s4\<lparr>last_x := Some lx', last_y := Some ly'\<rparr>"
      using p(5) plot_all_last [where dp = dp and s = s1 and a = "Some lx'" and b = "Some ly'" and pts = pts, OF com]
      by (auto simp add: s2_def split: sum.splits)
    have near: "\<bar>lx' - lx\<bar> \<le> 1" "\<bar>ly' - ly\<bar> \<le> 1"
      using less.prems(6,7) by (auto simp add: lx'_def ly'_def)
    obtain q qs where q: "pts = q # qs" using p(1) by (cases pts) auto
    have c: "connected8 ((lx, ly) # pts)"
      using p(2,4) near by (simp add: q)
    have "plot_all dp s ((lx, ly) # pts) = Inr s4" using s1(1) s4(1) by simp
    moreover have "draw_line_loop dp x y dx dy sx sy err s = Some (Inr (s4\<lparr>last_x := Some x, last_y := Some y\<rparr>))"
      using unfold p(6) s4(2) by simp
    ultimately show ?thesis
      using p(1,3) c by (intro exI [of _ "(lx, ly) # pts"] exI [of _ s4]) simp
  qed
qed

subsection \<open>Line rasterization\<close>

lemma draw_line_with_path:
  assumes tot: "\<And>s x y. length (buffer s) = 9600 \<Longrightarrow>
      \<exists>s'. dp s x y = Inr s' \<and> length (buffer s') = 9600 \<and> last_x s' = last_x s \<and> last_y s' = last_y s"
    and com: "\<And>s x y a b. dp (s\<lparr>last_x := a, last_y := b\<rparr>) x y =
      (case dp s x y of Inl e \<Rightarrow> Inl e | Inr s' \<Rightarrow> Inr (s'\<lparr>last_x := a, last_y := b\<rparr>))"
    and s: "last_x s = Some x0" "last_y s = Some y0" "length (buffer s) = 9600"
  shows "\<exists>pts s'. pts \<noteq> [] \<and> hd pts = (x0, y0) \<and> last pts = (x, y) \<and> connected8 pts \<and>
        plot_all dp s pts = Inr s' \<and>
        draw_line_with dp s x y = Some (Inr (s'\<lparr>last_x := Some x, last_y := Some y\<rparr>))"
proof -
  define dx where "dx = \<bar>x - x0\<bar>"
  define dy where "dy = \<bar>y - y0\<bar>"
  define sx :: int where "sx = (if x > x0 then 1 else - 1)"
  define sy :: int where "sy = (if y > y0 then 1 else - 1)"
  have d: "draw_line_with dp s x y = draw_line_loop dp x y dx dy sx sy (dx - dy) s"
    using s(1,2) by (simp add: draw_line_with_def Let_def dx_def dy_def sx_def sy_def)
  have x: "x = x0 + sx * dx" by (simp add: sx_def dx_def)
  have y: "y = y0 + sy * dy" by (simp add: sy_def dy_def)
  have e: "dx - dy = dx - dy + dx * dy - dy * dx" by simp
  have "\<exists>pts s'. pts \<noteq> [] \<and> hd pts = (x0, y0) \<and> last pts = (x, y) \<and> connected8 pts \<and>
        plot_all dp s pts = Inr s' \<and>
        draw_line_loop dp x y dx dy sx sy (dx - dy) s = Some (Inr (s'\<lparr>last_x := Some x, last_y := Some y\<rparr>))"
    using tot com
  proof (rule draw_line_loop_path [where rx = dx and ry = dy])
    show "nat (dx + dy) = nat (dx + dy)" by simp
    show "0 \<le> dx" "0 \<le> dy" by (simp_all add: dx_def dy_def)
    show "dx \<le> dx" "dy \<le> dy" by simp_all
    show "sx = 1 \<or> sx = - 1" "sy = 1 \<or> sy = - 1" by (simp_all add: sx_def sy_def)
    show "x = x0 + sx * dx" by (rule x)
    show "y = y0 + sy * dy" by (rule y)
    show "dx - dy = dx - dy + dx * dy - dy * dx" by (rule e)
    show "last_x s = Some x0" "last_y s = Some y0" "length (buffer s) = 9600" by (rule s)+
  qed
  then show ?thesis by (simp only: d)
qed



subsection \<open>The scan on a drawing that touches column 0\<close>

lemma set_pixel_first_again:
  "set_pixel ((bytearray 9600)[0 := 128]) 0 0 True = Inr ((bytearray 9600)[0 := 128])"
  using set_pixel_in_canvas [of "(bytearray 9600)[0 := 128]" 0 0 True]
  by (simp add: length_bytearray)

lemma second_touch_old: "touch_handler_old fl one_dot_old 0 1 = Some (Inr two_dots_old)"
proof -
  have f: "\<not> freeze one_dot_old" "Touch_items one_dot_old = [TouchArea 280 208 32 32]"
      "last_x one_dot_old = Some 0" "last_y one_dot_old = Some 0"
      "buffer one_dot_old = (bytearray 9600)[0 := 128]"
    by (simp_all add: one_dot_old_def TouchScreen_init_old_def initialize_ui_old_def screen_do_def
        addTouchItem_def Let_def)
  define s1 where "s1 = one_dot_old\<lparr>Screen := Screen one_dot_old @ [Fill_circle 0 0 3 BLACK]\<rparr>"
  define s2 where "s2 = s1\<lparr>last_x := Some 1, last_y := Some 0\<rparr>"
  have p1: "draw_point_old one_dot_old 0 0 = Inr s1"
    by (simp add: draw_point_old_def f set_pixel_first_again s1_def)
  have p2: "draw_point_old s2 1 0 = Inr two_dots_old"
    by (simp add: draw_point_old_def s2_def s1_def f set_pixel_second two_dots_old_def)
  have g: "last_x s2 = Some 1" "last_y s2 = Some 0"
    by (simp_all add: s2_def)
  have l2: "draw_line_loop draw_point_old 1 0 1 0 1 (- 1) 1 s2 = Some (Inr two_dots_old)"
    by (subst draw_line_loop.simps) (simp add: g p2)
  have l1: "draw_line_loop draw_point_old 1 0 1 0 1 (- 1) 1 one_dot_old = Some (Inr two_dots_old)"
    by (subst draw_line_loop.simps) (simp add: f p1 Let_def s2_def [symmetric] l2)
  have "draw_line_with draw_point_old one_dot_old 1 0 = Some (Inr two_dots_old)"
    by (simp add: draw_line_with_def f Let_def l1)
  moreover have "two_dots_old\<lparr>last_x := Some 1, last_y := Some 0\<rparr> = two_dots_old"
    by (simp add: two_dots_old_def)
  ultimately have "process_drawing_old one_dot_old 1 0 = Some (Inr two_dots_old)"
    by (simp add: process_drawing_old_def process_drawing_with_def f draw_line_with_def)
  then show ?thesis
    by (simp add: touch_handler_old_def f TouchArea_def in_range_def)
qed

text \<open>
  Claim C8. In \<open>mainESPold.py\<close>, after touches at the transposed points \<open>(0, 0)\<close> and
  \<open>(1, 0)\<close>, the ink is exactly the pixels \<open>(0, 0)\<close> and \<open>(1, 0)\<close>, and the scan ends
  with \<open>min_x = 1\<close>, although the least x of an ink pixel is 0: once \<open>min_x\<close> is 0
  the test \<open>if min_x\<close> takes it for unset and the next pixel overwrites it.
\<close>

theorem find_bounds_misses_column_zero:
  "touch_handler_old fl one_dot_old 0 1 = Some (Inr two_dots_old) \<and>
   buffer two_dots_old = (bytearray 9600)[0 := 192] \<and>
   find_bounds (buffer two_dots_old) =
     Inr \<lparr>min_x = Some 1, max_x = Some 1, min_y = Some 0, max_y = Some 0\<rparr> \<and>
   get_pixel (buffer two_dots_old) 0 0 = Inr True \<and>
   get_pixel (buffer two_dots_old) 1 0 = Inr True \<and>
   (\<forall>x y. get_pixel (buffer two_dots_old) x y = Inr ((x = 0 \<or> x = 1) \<and> y = 0))"
proof -
  have b: "buffer two_dots_old = (bytearray 9600)[0 := 192]"
    by (simp add: two_dots_old_def)
  show ?thesis
    unfolding b
    by (auto simp add: second_touch_old find_bounds_two_dots get_pixel_ink length_bytearray ink_two_dots
        update_bounds_def no_bounds_def min_if_def max_if_def)
qed

subsection \<open>The save action of \<open>main_final.py\<close>\<close>

text \<open>The fixed-window extraction returns a 98-byte sample; \<open>process_mnist_data\<close> takes
  its "No drawing found" exit on a blank canvas and transmits otherwise; a save on a
  blank canvas transmits nothing and leaves every pixel as it was.\<close>

lemma length_py_range: "length (py_range a b) = nat (b - a)"
  by (simp add: py_range_def)

lemma pack_bit_ok:
  assumes "length bits = 98" "0 \<le> k" "k < 784"
  shows "\<exists>bits'. pack_bit p (bits, k) = Inr (bits', k + 1) \<and> length bits' = 98"
proof -
  have "0 \<le> k div 8" "k div 8 < 98" using assms(2,3) by auto
  then show ?thesis
    using assms(1) by (simp add: pack_bit_def ior_item_def getitem_def setitem_def Let_def del: push_bit_of_1)
qed

lemma extract_row:
  assumes "length buf = 9600"
  shows "length bits = 98 \<Longrightarrow> 0 \<le> k \<Longrightarrow> k + int (length xs) \<le> 784 \<Longrightarrow>
     \<exists>bits'. for_each xs (\<lambda>x st. and_then (get_pixel buf x y) (\<lambda>p. pack_bit p st)) (bits, k)
        = Inr (bits', k + int (length xs)) \<and> length bits' = 98"
proof (induction xs arbitrary: bits k)
  case Nil
  then show ?case by simp
next
  case (Cons x xs)
  obtain b1 where b1: "pack_bit (ink buf x y) (bits, k) = Inr (b1, k + 1)" "length b1 = 98"
    using pack_bit_ok [of bits k] Cons.prems by auto
  obtain b2 where b2: "for_each xs (\<lambda>x st. and_then (get_pixel buf x y) (\<lambda>p. pack_bit p st)) (b1, k + 1)
        = Inr (b2, k + 1 + int (length xs))" "length b2 = 98"
    using Cons.IH [of b1 "k + 1"] b1(2) Cons.prems by auto
  show ?case
    using b1 b2 by (simp add: get_pixel_ink [OF assms] add.assoc)
qed

lemma extract_rows:
  assumes "length buf = 9600" and "length xs = 28"
  shows "length bits = 98 \<Longrightarrow> 0 \<le> k \<Longrightarrow> k + 28 * int (length ys) \<le> 784 \<Longrightarrow>
     \<exists>bits'. for_each ys (\<lambda>y. for_each xs (\<lambda>x st. and_then (get_pixel buf x y) (\<lambda>p. pack_bit p st))) (bits, k)
        = Inr (bits', k + 28 * int (length ys)) \<and> length bits' = 98"
proof (induction ys arbitrary: bits k)
  case Nil
  then show ?case by simp
next
  case (Cons y ys)
  obtain b1 where b1: "for_each xs (\<lambda>x st. and_then (get_pixel buf x y) (\<lambda>p. pack_bit p st)) (bits, k)
        = Inr (b1, k + 28)" "length b1 = 98"
    using extract_row [OF assms(1), of bits k xs y] Cons.prems assms(2) by auto
  obtain b2 where b2: "for_each ys (\<lambda>y. for_each xs (\<lambda>x st. and_then (get_pixel buf x y) (\<lambda>p. pack_bit p st))) (b1, k + 28)
        = Inr (b2, k + 28 + 28 * int (length ys))" "length b2 = 98"
    using Cons.IH [of b1 "k + 28"] b1(2) Cons.prems by auto
  show ?case
    using b1 b2 by (simp add: algebra_simps)
qed

lemma extract_mnist_region_total:
  assumes "length buf = 9600"
  shows "\<exists>sample. extract_mnist_region buf = Inr sample \<and> length sample = 98"
proof -
  have "\<exists>bits'. for_each (py_range d_y (d_y + draw_area))
          (\<lambda>y. for_each (py_range d_x (d_x + draw_area))
             (\<lambda>x st. and_then (get_pixel buf x y) (\<lambda>p. pack_bit p st))) (bytearray 98, 0)
        = Inr (bits', 0 + 28 * int (length (py_range d_y (d_y + draw_area)))) \<and> length bits' = 98"
    by (rule extract_rows [OF assms]) (simp_all add: length_py_range draw_area_def length_bytearray)
  then show ?thesis by (auto simp add: extract_mnist_region_def)
qed

lemma process_mnist_data_blank:
  assumes "length (buffer s) = 9600" and "\<forall>x y. \<not> ink (buffer s) x y"
  shows "process_mnist_data s = Inr (NoDrawingFound, s)"
  using find_bounds_None_iff [OF assms(1)] assms(2) by (auto simp add: process_mnist_data_def)

lemma found_update_bounds: "found (update_bounds x y b)"
  by (simp add: found_def update_bounds_def)

lemma scan_keeps_found: "found b \<Longrightarrow> found (fold (scan_step buf) ps b)"
  by (induction ps arbitrary: b) (simp_all add: scan_step_def found_update_bounds)

lemma scan_finds_all:
  "p \<in> set ps \<Longrightarrow> ink buf (fst p) (snd p) \<Longrightarrow> found (fold (scan_step buf) ps b)"
proof (induction ps arbitrary: b)
  case Nil
  then show ?case by simp
next
  case (Cons q ps)
  show ?case
  proof (cases "ink buf (fst q) (snd q)")
    case True
    then have "found (scan_step buf q b)" by (simp add: scan_step_def found_update_bounds)
    then show ?thesis by (simp add: scan_keeps_found)
  next
    case False
    with Cons.prems have "p \<in> set ps" by auto
    with Cons False show ?thesis by (simp add: scan_step_def)
  qed
qed

lemma process_mnist_data_ink:
  assumes "length (buffer s) = 9600" and "ink (buffer s) x y"
  shows "\<exists>sample. length sample = 98 \<and> process_mnist_data s = Inr (Transmitted, send_uart_data s sample)"
proof -
  obtain sample where e: "extract_mnist_region (buffer s) = Inr sample" "length sample = 98"
    using extract_mnist_region_total [OF assms(1)] by blast
  define b where "b = fold (scan_step (buffer s)) canvas_points no_bounds"
  have f: "find_bounds (buffer s) = Inr b"
    by (simp add: find_bounds_fold [OF assms(1)] b_def)
  have "found b"
    unfolding b_def using scan_finds_all [of "(x, y)" canvas_points "buffer s"] assms(2) ink_in_canvas [OF assms(2)]
    by simp
  then obtain a b' c d where "min_x b = Some a" "max_x b = Some b'" "min_y b = Some c" "max_y b = Some d"
    by (auto simp add: found_def)
  then have "process_mnist_data s = Inr (Transmitted, send_uart_data s sample)"
    by (simp add: process_mnist_data_def f sub_def e)
  with e(2) show ?thesis by blast
qed

lemma save_mnist_blank:
  assumes "length (buffer s) = 9600" and "\<forall>x y. \<not> ink (buffer s) x y"
  shows "\<exists>s'. save_mnist s = Inr s' \<and> uart s' = uart s \<and> \<not> freeze s' \<and>
           (\<forall>x y. get_pixel (buffer s') x y = get_pixel (buffer s) x y)"
proof -
  have "process_mnist_data (s\<lparr>freeze := True\<rparr>) = Inr (NoDrawingFound, s\<lparr>freeze := True\<rparr>)"
    using assms by (intro process_mnist_data_blank) simp_all
  then have "save_mnist s = Inr ((reset_canvas (s\<lparr>freeze := True\<rparr>))\<lparr>freeze := False\<rparr>)"
    by (simp add: save_mnist_def)
  moreover have "uart ((reset_canvas (s\<lparr>freeze := True\<rparr>))\<lparr>freeze := False\<rparr>) = uart s"
    by (simp add: reset_canvas_def initialize_ui_def screen_do_def addTouchItem_def Let_def)
  moreover have "\<forall>x y. get_pixel (buffer ((reset_canvas (s\<lparr>freeze := True\<rparr>))\<lparr>freeze := False\<rparr>)) x y
       = get_pixel (buffer s) x y"
    using assms by (simp add: buffer_reset_canvas get_pixel_bytearray get_pixel_ink)
  ultimately show ?thesis by simp
qed

subsection \<open>What the brush of \<open>main_final.py\<close> sets, and ink under touch events\<close>

text \<open>\<open>draw_point\<close> at a canvas point sets that pixel and those of its four neighbours
  that lie on the canvas, and no other.\<close>

lemma ink_set_pixel_any:
  assumes "length buf = 9600" and "set_pixel buf x y True = Inr buf'"
  shows "ink buf' x' y' = (ink buf x' y' \<or> (x' = x \<and> y' = y \<and> 0 \<le> x \<and> x < 320 \<and> 0 \<le> y \<and> y < 240))"
proof (cases "0 \<le> x \<and> x < 320 \<and> 0 \<le> y \<and> y < 240")
  case True
  then show ?thesis using ink_set_pixel [of buf x y buf' x' y'] assms by simp
next
  case False
  then have "buf' = buf" using assms(2) set_pixel_outside [of x y buf True] by simp
  with False show ?thesis by auto
qed

lemma draw_point_ink:
  assumes "length (buffer s) = 9600" and "0 \<le> x" "x < 320" "0 \<le> y" "y < 240"
    and "draw_point s x y = Inr s'"
  shows "ink (buffer s') x' y' =
     (ink (buffer s) x' y' \<or>
      (0 \<le> x' \<and> x' < 320 \<and> 0 \<le> y' \<and> y' < 240 \<and>
       ((x' = x \<and> y' = y) \<or> (x' = x + 1 \<and> y' = y) \<or> (x' = x - 1 \<and> y' = y) \<or>
        (x' = x \<and> y' = y + 1) \<or> (x' = x \<and> y' = y - 1))))"
proof -
  obtain b1 where b1: "set_pixel (buffer s) x y True = Inr b1" "length b1 = 9600"
    using set_pixel_length [OF assms(1)] by blast
  obtain b2 where b2: "set_pixel b1 (x + 1) y True = Inr b2" "length b2 = 9600"
    using set_pixel_length [OF b1(2)] by blast
  obtain b3 where b3: "set_pixel b2 (x - 1) y True = Inr b3" "length b3 = 9600"
    using set_pixel_length [OF b2(2)] by blast
  obtain b4 where b4: "set_pixel b3 x (y + 1) True = Inr b4" "length b4 = 9600"
    using set_pixel_length [OF b3(2)] by blast
  obtain b5 where b5: "set_pixel b4 x (y - 1) True = Inr b5" "length b5 = 9600"
    using set_pixel_length [OF b4(2)] by blast
  have e: "buffer s' = b5"
    using assms(2-6) b1 b2 b3 b4 b5 by (auto simp add: draw_point_def)
  define c where "c = (0 \<le> x' \<and> x' < 320 \<and> 0 \<le> y' \<and> y' < 240)"
  have a1: "(x' = x \<and> y' = y \<and> 0 \<le> x \<and> x < 320 \<and> 0 \<le> y \<and> y < 240) = (c \<and> x' = x \<and> y' = y)"
    unfolding c_def by auto
  have a2: "(x' = x + 1 \<and> y' = y \<and> 0 \<le> x + 1 \<and> x + 1 < 320 \<and> 0 \<le> y \<and> y < 240) = (c \<and> x' = x + 1 \<and> y' = y)"
    unfolding c_def by auto
  have a3: "(x' = x - 1 \<and> y' = y \<and> 0 \<le> x - 1 \<and> x - 1 < 320 \<and> 0 \<le> y \<and> y < 240) = (c \<and> x' = x - 1 \<and> y' = y)"
    unfolding c_def by auto
  have a4: "(x' = x \<and> y' = y + 1 \<and> 0 \<le> x \<and> x < 320 \<and> 0 \<le> y + 1 \<and> y + 1 < 240) = (c \<and> x' = x \<and> y' = y + 1)"
    unfolding c_def by auto
  have a5: "(x' = x \<and> y' = y - 1 \<and> 0 \<le> x \<and> x < 320 \<and> 0 \<le> y - 1 \<and> y - 1 < 240) = (c \<and> x' = x \<and> y' = y - 1)"
    unfolding c_def by auto
  have "ink b5 x' y' = (ink (buffer s) x' y' \<or> (c \<and> x' = x \<and> y' = y) \<or> (c \<and> x' = x + 1 \<and> y' = y) \<or>
      (c \<and> x' = x - 1 \<and> y' = y) \<or> (c \<and> x' = x \<and> y' = y + 1) \<or> (c \<and> x' = x \<and> y' = y - 1))"
    unfolding ink_set_pixel_any [OF b4(2) b5(1), of x' y'] ink_set_pixel_any [OF b3(2) b4(1), of x' y']
      ink_set_pixel_any [OF b2(2) b3(1), of x' y'] ink_set_pixel_any [OF b1(2) b2(1), of x' y']
      ink_set_pixel_any [OF assms(1) b1(1), of x' y'] a1 a2 a3 a4 a5
    by blast
  then show ?thesis
    unfolding e c_def by blast
qed

text \<open>A touch event of \<open>main_final.py\<close> that returns either keeps every ink pixel or
  was a save action, which ends with the canvas reset.\<close>

lemma draw_point_mono:
  assumes "length (buffer s) = 9600" and "draw_point s x y = Inr s'" and "ink (buffer s) x' y'"
  shows "ink (buffer s') x' y'"
proof (cases "0 \<le> x \<and> x < 320 \<and> 0 \<le> y \<and> y < 240")
  case True
  then show ?thesis using draw_point_ink [of s x y s' x' y'] assms by simp
next
  case False
  then have "s' = s" using assms(2) by (auto simp add: draw_point_def)
  with assms(3) show ?thesis by simp
qed

lemma plot_all_mono:
  "length (buffer s) = 9600 \<Longrightarrow> plot_all draw_point s pts = Inr s' \<Longrightarrow> ink (buffer s) x' y' \<Longrightarrow>
     ink (buffer s') x' y'"
proof (induction pts arbitrary: s)
  case Nil
  then show ?case by simp
next
  case (Cons p pts)
  obtain s1 where s1: "draw_point s (fst p) (snd p) = Inr s1" "length (buffer s1) = 9600"
    using draw_point_total [OF Cons.prems(1)] by blast
  have "ink (buffer s1) x' y'" using draw_point_mono [OF Cons.prems(1) s1(1) Cons.prems(3)] .
  moreover have "plot_all draw_point s1 pts = Inr s'" using Cons.prems(2) s1(1) by simp
  ultimately show ?case using Cons.IH [OF s1(2)] by simp
qed

lemma touch_handler_keeps_ink:
  assumes "length (buffer s) = 9600" and "touch_handler s x_raw y_raw = Some (Inr s')"
  shows "(\<forall>x y. ink (buffer s) x y \<longrightarrow> ink (buffer s') x y) \<or> buffer s' = bytearray 9600"
proof (cases "freeze s")
  case True
  then show ?thesis using assms(2) by (simp add: touch_handler_def)
next
  case nf: False
  show ?thesis
  proof (cases "first_hit (Touch_items s) 0 y_raw x_raw")
    case (Some i)
    then have "call (Touch_callbacks s) i s = Inr s'"
      using assms(2) nf by (simp add: touch_handler_def)
    then have "save_mnist s = Inr s'"
      by (auto simp add: call_def split: if_splits callback.splits)
    then have "buffer s' = bytearray 9600"
      by (auto simp add: save_mnist_def and_then_def buffer_reset_canvas split: sum.splits)
    then show ?thesis by simp
  next
    case None
    show ?thesis
    proof (cases "d_x < y_raw \<and> y_raw < d_x + draw_area \<and> d_y < x_raw \<and> x_raw < d_y + draw_area")
      case False
      then have "s' = s" using assms(2) nf None by (auto simp add: touch_handler_def)
      then show ?thesis by simp
    next
      case True
      then have pd: "process_drawing s y_raw x_raw = Some (Inr s')"
        using assms(2) nf None by (simp add: touch_handler_def)
      show ?thesis
      proof (cases "last_x s")
        case ln: None
        then obtain s1 where "draw_point s y_raw x_raw = Inr s1" "buffer s' = buffer s1"
          using pd by (auto simp add: process_drawing_def process_drawing_with_def split: sum.splits)
        then show ?thesis using draw_point_mono [OF assms(1)] by simp
      next
        case (Some x0)
        show ?thesis
        proof (cases "last_y s")
          case None
          then show ?thesis
            using pd Some by (simp add: process_drawing_def process_drawing_with_def draw_line_with_def)
        next
          case sy: (Some y0)
          obtain pts s2 where p: "plot_all draw_point s pts = Inr s2"
              "draw_line_with draw_point s y_raw x_raw = Some (Inr (s2\<lparr>last_x := Some y_raw, last_y := Some x_raw\<rparr>))"
            using draw_line_with_path [of draw_point s x0 y0 y_raw x_raw, OF draw_point_total draw_point_last Some sy assms(1)]
            by blast
          then have "buffer s' = buffer s2"
            using pd Some by (auto simp add: process_drawing_def process_drawing_with_def)
          then show ?thesis using plot_all_mono [OF assms(1) p(1)] by simp
        qed
      qed
    qed
  qed
qed

subsection \<open>Where the bounding-box scan is right\<close>

text \<open>\<open>max_x\<close> and \<open>max_y\<close> are the greatest coordinates of an ink pixel. \<open>min_x\<close> is
  the least x when no ink pixel lies in column 0, and \<open>min_y\<close> the least y when none
  lies in row 0.\<close>

lemma max_fold:
  assumes "\<forall>p \<in> set ps. P p \<longrightarrow> 0 \<le> k p"
  shows "case fold (\<lambda>p v. if P p then Some (max_if (k p) v) else v) ps None of
           None \<Rightarrow> \<forall>p \<in> set ps. \<not> P p
         | Some m \<Rightarrow> (\<exists>p \<in> set ps. P p \<and> k p = m) \<and> (\<forall>p \<in> set ps. P p \<longrightarrow> k p \<le> m)"
  using assms
proof (induction ps rule: rev_induct)
  case Nil
  then show ?case by simp
next
  case (snoc q ps)
  define v where "v = fold (\<lambda>p v. if P p then Some (max_if (k p) v) else v) ps None"
  have ih: "case v of None \<Rightarrow> \<forall>p \<in> set ps. \<not> P p
         | Some m \<Rightarrow> (\<exists>p \<in> set ps. P p \<and> k p = m) \<and> (\<forall>p \<in> set ps. P p \<longrightarrow> k p \<le> m)"
    unfolding v_def using snoc by simp
  show ?case
  proof (cases "P q")
    case False
    then show ?thesis using ih by (simp add: v_def [symmetric] split: option.splits)
  next
    case True
    then have q0: "0 \<le> k q" using snoc.prems by simp
    show ?thesis
    proof (cases v)
      case None
      then show ?thesis using ih True by (simp add: v_def [symmetric] max_if_def)
    next
      case (Some m)
      then have "0 \<le> m" using ih snoc.prems by auto
      then have "max_if (k q) v = max (k q) m" using q0 Some by (auto simp add: max_if_def)
      then show ?thesis using ih True Some by (auto simp add: v_def [symmetric] max_def)
    qed
  qed
qed

lemma min_fold:
  assumes "\<forall>p \<in> set ps. P p \<longrightarrow> 0 < k p"
  shows "case fold (\<lambda>p v. if P p then Some (min_if (k p) v) else v) ps None of
           None \<Rightarrow> \<forall>p \<in> set ps. \<not> P p
         | Some m \<Rightarrow> (\<exists>p \<in> set ps. P p \<and> k p = m) \<and> (\<forall>p \<in> set ps. P p \<longrightarrow> m \<le> k p)"
  using assms
proof (induction ps rule: rev_induct)
  case Nil
  then show ?case by simp
next
  case (snoc q ps)
  define v where "v = fold (\<lambda>p v. if P p then Some (min_if (k p) v) else v) ps None"
  have ih: "case v of None \<Rightarrow> \<forall>p \<in> set ps. \<not> P p
         | Some m \<Rightarrow> (\<exists>p \<in> set ps. P p \<and> k p = m) \<and> (\<forall>p \<in> set ps. P p \<longrightarrow> m \<le> k p)"
    unfolding v_def using snoc by simp
  show ?case
  proof (cases "P q")
    case False
    then show ?thesis using ih by (simp add: v_def [symmetric] split: option.splits)
  next
    case True
    show ?thesis
    proof (cases v)
      case None
      then show ?thesis using ih True by (simp add: v_def [symmetric] min_if_def)
    next
      case (Some m)
      then have "0 < m" using ih snoc.prems by auto
      then have "min_if (k q) v = min (k q) m" using Some by (auto simp add: min_if_def)
      then show ?thesis using ih True Some by (auto simp add: v_def [symmetric] min_def)
    qed
  qed
qed

lemma scan_fields:
  "max_x (fold (scan_step buf) ps b) =
     fold (\<lambda>p v. if ink buf (fst p) (snd p) then Some (max_if (fst p) v) else v) ps (max_x b)"
  "max_y (fold (scan_step buf) ps b) =
     fold (\<lambda>p v. if ink buf (fst p) (snd p) then Some (max_if (snd p) v) else v) ps (max_y b)"
  "min_x (fold (scan_step buf) ps b) =
     fold (\<lambda>p v. if ink buf (fst p) (snd p) then Some (min_if (fst p) v) else v) ps (min_x b)"
  "min_y (fold (scan_step buf) ps b) =
     fold (\<lambda>p v. if ink buf (fst p) (snd p) then Some (min_if (snd p) v) else v) ps (min_y b)"
  by (induction ps arbitrary: b) (simp_all add: scan_step_def update_bounds_def)

lemma find_bounds_where_right:
  assumes "length buf = 9600" and "ink buf x0 y0"
  shows "\<exists>b. find_bounds buf = Inr b \<and>
     (\<exists>m. max_x b = Some m \<and> (\<exists>y. ink buf m y) \<and> (\<forall>x y. ink buf x y \<longrightarrow> x \<le> m)) \<and>
     (\<exists>m. max_y b = Some m \<and> (\<exists>x. ink buf x m) \<and> (\<forall>x y. ink buf x y \<longrightarrow> y \<le> m)) \<and>
     ((\<forall>y. \<not> ink buf 0 y) \<longrightarrow>
        (\<exists>m. min_x b = Some m \<and> (\<exists>y. ink buf m y) \<and> (\<forall>x y. ink buf x y \<longrightarrow> m \<le> x))) \<and>
     ((\<forall>x. \<not> ink buf x 0) \<longrightarrow>
        (\<exists>m. min_y b = Some m \<and> (\<exists>x. ink buf x m) \<and> (\<forall>x y. ink buf x y \<longrightarrow> m \<le> y)))"
proof -
  define b where "b = fold (scan_step buf) canvas_points no_bounds"
  have f: "find_bounds buf = Inr b" by (simp add: find_bounds_fold [OF assms(1)] b_def)
  have mem: "(x0, y0) \<in> set canvas_points" "ink buf (fst (x0, y0)) (snd (x0, y0))"
    using assms(2) ink_in_canvas by simp_all
  have all: "ink buf x y \<Longrightarrow> (x, y) \<in> set canvas_points" for x y
    by (rule ink_in_canvas)
  have nn: "\<forall>p \<in> set canvas_points. ink buf (fst p) (snd p) \<longrightarrow> 0 \<le> fst p"
      "\<forall>p \<in> set canvas_points. ink buf (fst p) (snd p) \<longrightarrow> 0 \<le> snd p"
    by (auto simp add: ink_def)
  have mx: "\<exists>m. max_x b = Some m \<and> (\<exists>y. ink buf m y) \<and> (\<forall>x y. ink buf x y \<longrightarrow> x \<le> m)"
  proof -
    have "case max_x b of None \<Rightarrow> \<forall>p \<in> set canvas_points. \<not> ink buf (fst p) (snd p)
         | Some m \<Rightarrow> (\<exists>p \<in> set canvas_points. ink buf (fst p) (snd p) \<and> fst p = m) \<and>
             (\<forall>p \<in> set canvas_points. ink buf (fst p) (snd p) \<longrightarrow> fst p \<le> m)"
      unfolding b_def scan_fields using max_fold [OF nn(1)] by (simp add: no_bounds_def)
    then obtain m where m: "max_x b = Some m"
        "\<exists>p \<in> set canvas_points. ink buf (fst p) (snd p) \<and> fst p = m"
        "\<forall>p \<in> set canvas_points. ink buf (fst p) (snd p) \<longrightarrow> fst p \<le> m"
      using mem by (cases "max_x b") auto
    have "\<exists>y. ink buf m y" using m(2) by auto
    moreover have "\<forall>x y. ink buf x y \<longrightarrow> x \<le> m" using m(3) all by fastforce
    ultimately show ?thesis using m(1) by blast
  qed
  have my: "\<exists>m. max_y b = Some m \<and> (\<exists>x. ink buf x m) \<and> (\<forall>x y. ink buf x y \<longrightarrow> y \<le> m)"
  proof -
    have "case max_y b of None \<Rightarrow> \<forall>p \<in> set canvas_points. \<not> ink buf (fst p) (snd p)
         | Some m \<Rightarrow> (\<exists>p \<in> set canvas_points. ink buf (fst p) (snd p) \<and> snd p = m) \<and>
             (\<forall>p \<in> set canvas_points. ink buf (fst p) (snd p) \<longrightarrow> snd p \<le> m)"
      unfolding b_def scan_fields using max_fold [OF nn(2)] by (simp add: no_bounds_def)
    then obtain m where m: "max_y b = Some m"
        "\<exists>p \<in> set canvas_points. ink buf (fst p) (snd p) \<and> snd p = m"
        "\<forall>p \<in> set canvas_points. ink buf (fst p) (snd p) \<longrightarrow> snd p \<le> m"
      using mem by (cases "max_y b") auto
    have "\<exists>x. ink buf x m" using m(2) by auto
    moreover have "\<forall>x y. ink buf x y \<longrightarrow> y \<le> m" using m(3) all by fastforce
    ultimately show ?thesis using m(1) by blast
  qed
  have nx: "(\<forall>y. \<not> ink buf 0 y) \<longrightarrow>
        (\<exists>m. min_x b = Some m \<and> (\<exists>y. ink buf m y) \<and> (\<forall>x y. ink buf x y \<longrightarrow> m \<le> x))"
  proof
    assume z: "\<forall>y. \<not> ink buf 0 y"
    have pos: "\<forall>p \<in> set canvas_points. ink buf (fst p) (snd p) \<longrightarrow> 0 < fst p"
    proof (intro ballI impI)
      fix p assume "p \<in> set canvas_points" "ink buf (fst p) (snd p)"
      then have "0 \<le> fst p" "fst p \<noteq> 0" using nn(1) z by auto
      then show "0 < fst p" by simp
    qed
    have "case min_x b of None \<Rightarrow> \<forall>p \<in> set canvas_points. \<not> ink buf (fst p) (snd p)
         | Some m \<Rightarrow> (\<exists>p \<in> set canvas_points. ink buf (fst p) (snd p) \<and> fst p = m) \<and>
             (\<forall>p \<in> set canvas_points. ink buf (fst p) (snd p) \<longrightarrow> m \<le> fst p)"
      unfolding b_def scan_fields using min_fold [OF pos] by (simp add: no_bounds_def)
    then obtain m where m: "min_x b = Some m"
        "\<exists>p \<in> set canvas_points. ink buf (fst p) (snd p) \<and> fst p = m"
        "\<forall>p \<in> set canvas_points. ink buf (fst p) (snd p) \<longrightarrow> m \<le> fst p"
      using mem by (cases "min_x b") auto
    have "\<exists>y. ink buf m y" using m(2) by auto
    moreover have "\<forall>x y. ink buf x y \<longrightarrow> m \<le> x" using m(3) all by fastforce
    ultimately show "\<exists>m. min_x b = Some m \<and> (\<exists>y. ink buf m y) \<and> (\<forall>x y. ink buf x y \<longrightarrow> m \<le> x)"
      using m(1) by blast
  qed
  have ny: "(\<forall>x. \<not> ink buf x 0) \<longrightarrow>
        (\<exists>m. min_y b = Some m \<and> (\<exists>x. ink buf x m) \<and> (\<forall>x y. ink buf x y \<longrightarrow> m \<le> y))"
  proof
    assume z: "\<forall>x. \<not> ink buf x 0"
    have pos: "\<forall>p \<in> set canvas_points. ink buf (fst p) (snd p) \<longrightarrow> 0 < snd p"
    proof (intro ballI impI)
      fix p assume "p \<in> set canvas_points" "ink buf (fst p) (snd p)"
      then have "0 \<le> snd p" "snd p \<noteq> 0" using nn(2) z by auto
      then show "0 < snd p" by simp
    qed
    have "case min_y b of None \<Rightarrow> \<forall>p \<in> set canvas_points. \<not> ink buf (fst p) (snd p)
         | Some m \<Rightarrow> (\<exists>p \<in> set canvas_points. ink buf (fst p) (snd p) \<and> snd p = m) \<and>
             (\<forall>p \<in> set canvas_points. ink buf (fst p) (snd p) \<longrightarrow> m \<le> snd p)"
      unfolding b_def scan_fields using min_fold [OF pos] by (simp add: no_bounds_def)
    then obtain m where m: "min_y b = Some m"
        "\<exists>p \<in> set canvas_points. ink buf (fst p) (snd p) \<and> snd p = m"
        "\<forall>p \<in> set canvas_points. ink buf (fst p) (snd p) \<longrightarrow> m \<le> snd p"
      using mem by (cases "min_y b") auto
    have "\<exists>x. ink buf x m" using m(2) by auto
    moreover have "\<forall>x y. ink buf x y \<longrightarrow> m \<le> y" using m(3) all by fastforce
    ultimately show "\<exists>m. min_y b = Some m \<and> (\<exists>x. ink buf x m) \<and> (\<forall>x y. ink buf x y \<longrightarrow> m \<le> y)"
      using m(1) by blast
  qed
  from f mx my nx ny show ?thesis by blast
qed

subsection \<open>The registered action leaves a trace\<close>

text \<open>The save action of \<open>main_final.py\<close>, the only registered action, always sends
  eight commands to the display. A touch event that returns the state unchanged has
  therefore not run it.\<close>

lemma process_mnist_data_Screen:
  "process_mnist_data s = Inr (out, s') \<Longrightarrow> Screen s' = Screen s"
  by (auto simp add: process_mnist_data_def and_then_def send_uart_data_def split: sum.splits if_splits)

lemma save_mnist_draws:
  assumes "save_mnist s = Inr s'"
  shows "length (Screen s') = length (Screen s) + 8"
proof -
  obtain out s1 where p: "process_mnist_data (s\<lparr>freeze := True\<rparr>) = Inr (out, s1)"
      and s': "s' = (reset_canvas s1)\<lparr>freeze := False\<rparr>"
    using assms by (auto simp add: save_mnist_def and_then_def split: sum.splits)
  have "Screen s1 = Screen s" using process_mnist_data_Screen [OF p] by simp
  then show ?thesis
    by (simp add: s' reset_canvas_def initialize_ui_def screen_do_def addTouchItem_def Let_def)
qed

lemma save_mnist_not_silent: "save_mnist s \<noteq> Inr s"
  using save_mnist_draws [of s s] by auto

subsection \<open>Routing of a touch event in \<open>main_final.py\<close>\<close>

lemma nth_bytearray: "i < n \<Longrightarrow> bytearray n ! i = 0"
  by (simp add: bytearray_def)

lemma TouchScreen_init_fields:
  "\<not> freeze TouchScreen_init" "Touch_items TouchScreen_init = [TouchArea 248 176 64 64]"
  "Touch_callbacks TouchScreen_init = [Save_mnist]"
  "last_x TouchScreen_init = None" "last_y TouchScreen_init = None"
  "buffer TouchScreen_init = bytearray 9600" "uart TouchScreen_init = []"
  by (simp_all add: TouchScreen_init_def initialize_ui_def screen_do_def addTouchItem_def Let_def)

lemma draw_point_plus_dot:
  "draw_point TouchScreen_init 141 110 =
     Inr (TouchScreen_init
            \<lparr>buffer := (bytearray 9600)[4417 := 14, 4457 := 4, 4377 := 4],
             Screen := Screen TouchScreen_init @ [Fill_circle 141 110 1 BLACK]\<rparr>)"
proof -
  have b1: "set_pixel (bytearray 9600) 141 110 True = Inr ((bytearray 9600)[4417 := 4])"
    using set_pixel_in_canvas [of "bytearray 9600" 141 110 True]
    by (simp add: length_bytearray nth_bytearray)
  have b2: "set_pixel ((bytearray 9600)[4417 := 4]) 142 110 True = Inr ((bytearray 9600)[4417 := 6])"
    using set_pixel_in_canvas [of "(bytearray 9600)[4417 := 4]" 142 110 True]
    by (simp add: length_bytearray)
  have b3: "set_pixel ((bytearray 9600)[4417 := 6]) 140 110 True = Inr ((bytearray 9600)[4417 := 14])"
    using set_pixel_in_canvas [of "(bytearray 9600)[4417 := 6]" 140 110 True]
    by (simp add: length_bytearray)
  have b4: "set_pixel ((bytearray 9600)[4417 := 14]) 141 111 True = Inr ((bytearray 9600)[4417 := 14, 4457 := 4])"
    using set_pixel_in_canvas [of "(bytearray 9600)[4417 := 14]" 141 111 True]
    by (simp add: length_bytearray nth_bytearray)
  have b5: "set_pixel ((bytearray 9600)[4417 := 14, 4457 := 4]) 141 109 True
      = Inr ((bytearray 9600)[4417 := 14, 4457 := 4, 4377 := 4])"
    using set_pixel_in_canvas [of "(bytearray 9600)[4417 := 14, 4457 := 4]" 141 109 True]
    by (simp add: length_bytearray nth_bytearray)
  show ?thesis
    by (simp add: draw_point_def TouchScreen_init_fields b1 b2 b3 b4 b5 draw_size_def)
qed

lemma touch_plus_dot: "touch_handler TouchScreen_init 110 141 = Some (Inr plus_dot)"
  by (simp add: touch_handler_def TouchScreen_init_fields TouchArea_def in_range_def d_x_def d_y_def
      draw_area_def process_drawing_def process_drawing_with_def draw_point_plus_dot plus_dot_def)

lemma plus_dot_fields:
  "\<not> freeze plus_dot" "Touch_items plus_dot = [TouchArea 248 176 64 64]"
  "Touch_callbacks plus_dot = [Save_mnist]"
  "buffer plus_dot = (bytearray 9600)[4417 := 14, 4457 := 4, 4377 := 4]"
  by (simp_all add: plus_dot_def TouchScreen_init_fields)

lemma ink_plus_dot: "ink (buffer plus_dot) 140 110"
proof -
  have "draw_point TouchScreen_init 141 110 = Inr (plus_dot\<lparr>last_x := None, last_y := None\<rparr>)"
    by (simp add: draw_point_plus_dot plus_dot_def TouchScreen_init_fields)
  then show ?thesis
    using draw_point_ink [of TouchScreen_init 141 110 "plus_dot\<lparr>last_x := None, last_y := None\<rparr>" 140 110]
    by (simp add: TouchScreen_init_fields length_bytearray)
qed

text \<open>
  A touch on the border column of the drawing window does not find its bit unset in
  every state. After a first touch at \<open>(141, 110)\<close> the brush has set the pixel
  \<open>(140, 110)\<close> of column \<open>d_x = 140\<close>; a touch at \<open>(140, 110)\<close> then draws nothing and
  returns the state as it is, in which that bit is set.
\<close>

theorem border_bit_set_by_brush:
  "touch_handler TouchScreen_init 110 141 = Some (Inr plus_dot) \<and>
   d_x = 140 \<and>
   touch_handler plus_dot 110 140 = Some (Inr plus_dot) \<and>
   get_pixel (buffer plus_dot) 140 110 = Inr True"
proof -
  have "touch_handler plus_dot 110 140 = Some (Inr plus_dot)"
    by (simp add: touch_handler_def plus_dot_fields TouchArea_def in_range_def d_x_def)
  moreover have "get_pixel (buffer plus_dot) 140 110 = Inr True"
    using ink_plus_dot by (simp add: get_pixel_ink plus_dot_fields length_bytearray)
  ultimately show ?thesis
    by (simp add: touch_plus_dot d_x_def)
qed

lemma first_hit_on_button:
  assumes "areas \<noteq> []" and "\<forall>a \<in> set areas. a = TouchArea 248 176 64 64"
    and "248 \<le> x" "x < 312" "176 \<le> y" "y < 240"
  shows "first_hit areas i x y = Some i"
  using assms by (cases areas) (auto simp add: TouchArea_def in_range_def)

lemma first_hit_off_button:
  assumes "\<forall>a \<in> set areas. a = TouchArea 248 176 64 64"
    and "\<not> (248 \<le> x \<and> x < 312 \<and> 176 \<le> y \<and> y < 240)"
  shows "first_hit areas i x y = None"
  using assms by (induction areas arbitrary: i) (auto simp add: TouchArea_def in_range_def)

text \<open>
  Claim C10, amended. In \<open>main_final.py\<close>, in a state whose registered areas are the
  SEND button with its callback, a touch at transposed coordinates \<open>(x, y)\<close> does
  nothing when the latch is set; otherwise it runs the save action when it lies on the
  button, is handed to \<open>process_drawing\<close> when \<open>d_x < x < d_x + 28\<close> and
  \<open>d_y < y < d_y + 28\<close> strictly, and does nothing in every other case. So a touch
  that is not strictly inside the window is never drawn, and a touch with \<open>x = d_x\<close>
  or \<open>y = d_y\<close> returns the state unchanged: every FrameBuffer bit stays as it was,
  set or unset.
\<close>

theorem touch_routing:
  assumes "Touch_items s \<noteq> []"
    and "\<forall>a \<in> set (Touch_items s). a = TouchArea 248 176 64 64"
    and "length (Touch_callbacks s) = length (Touch_items s)"
  shows "touch_handler s y x =
           (if freeze s then Some (Inr s)
            else if 248 \<le> x \<and> x < 312 \<and> 176 \<le> y \<and> y < 240 then Some (save_mnist s)
            else if d_x < x \<and> x < d_x + draw_area \<and> d_y < y \<and> y < d_y + draw_area
              then process_drawing s x y
            else Some (Inr s)) \<and>
         (\<not> (d_x < x \<and> x < d_x + draw_area \<and> d_y < y \<and> y < d_y + draw_area) \<longrightarrow>
            touch_handler s y x = Some (Inr s) \<or> touch_handler s y x = Some (save_mnist s)) \<and>
         (x = d_x \<or> y = d_y \<longrightarrow> touch_handler s y x = Some (Inr s))"
proof -
  have a: "touch_handler s y x =
           (if freeze s then Some (Inr s)
            else if 248 \<le> x \<and> x < 312 \<and> 176 \<le> y \<and> y < 240 then Some (save_mnist s)
            else if d_x < x \<and> x < d_x + draw_area \<and> d_y < y \<and> y < d_y + draw_area
              then process_drawing s x y
            else Some (Inr s))"
  proof -
    define on_button where "on_button = (248 \<le> x \<and> x < 312 \<and> 176 \<le> y \<and> y < 240)"
    have hit: "first_hit (Touch_items s) 0 x y = (if on_button then Some 0 else None)"
      using first_hit_on_button [OF assms(1,2), of x y 0] first_hit_off_button [OF assms(2), of x y 0]
      by (auto simp add: on_button_def)
    have cb: "call (Touch_callbacks s) 0 s = save_mnist s"
      using assms(1,3) by (cases "Touch_callbacks s ! 0") (simp add: call_def)
    have "touch_handler s y x =
           (if freeze s then Some (Inr s)
            else if on_button then Some (save_mnist s)
            else if d_x < x \<and> x < d_x + draw_area \<and> d_y < y \<and> y < d_y + draw_area
              then process_drawing s x y
            else Some (Inr s))"
      by (simp add: touch_handler_def hit cb)
    then show ?thesis by (simp only: on_button_def)
  qed
  have b: "\<not> (d_x < x \<and> x < d_x + draw_area \<and> d_y < y \<and> y < d_y + draw_area) \<longrightarrow>
            touch_handler s y x = Some (Inr s) \<or> touch_handler s y x = Some (save_mnist s)"
    by (simp only: a split: if_splits) blast
  have c: "x = d_x \<or> y = d_y \<longrightarrow> touch_handler s y x = Some (Inr s)"
  proof
    assume "x = d_x \<or> y = d_y"
    then have nb: "\<not> (248 \<le> x \<and> x < 312 \<and> 176 \<le> y \<and> y < 240)"
      and nw: "\<not> (d_x < x \<and> x < d_x + draw_area \<and> d_y < y \<and> y < d_y + draw_area)"
      by (auto simp add: d_x_def d_y_def)
    show "touch_handler s y x = Some (Inr s)"
      by (simp only: a nb nw if_False if_cancel)
  qed
  from a b c show ?thesis by blast
qed

theorem touch_routing_witness:
  "Touch_items plus_dot = [TouchArea 248 176 64 64] \<and>
   Touch_callbacks plus_dot = [Save_mnist] \<and>
   touch_handler plus_dot 110 140 = Some (Inr plus_dot) \<and>
   touch_handler plus_dot 100 150 = Some (Inr plus_dot) \<and>
   touch_handler plus_dot 110 168 = Some (Inr plus_dot) \<and>
   touch_handler plus_dot 110 150 = process_drawing plus_dot 150 110 \<and>
   touch_handler plus_dot 200 300 = Some (save_mnist plus_dot)"
proof -
  have h: "Touch_items plus_dot \<noteq> []"
      "\<forall>a \<in> set (Touch_items plus_dot). a = TouchArea 248 176 64 64"
      "length (Touch_callbacks plus_dot) = length (Touch_items plus_dot)"
    by (simp_all add: plus_dot_fields)
  show ?thesis
    using touch_routing [OF h, where x = 140 and y = 110] touch_routing [OF h, where x = 150 and y = 100]
      touch_routing [OF h, where x = 168 and y = 110] touch_routing [OF h, where x = 150 and y = 110]
      touch_routing [OF h, where x = 300 and y = 200]
    by (simp add: plus_dot_fields d_x_def d_y_def draw_area_def)
qed

end
